theory Spec2Isabelle
  imports Main "HOL-Library.Monad_Syntax"
begin

section \<open>Values and transformation contracts\<close>

text \<open>
  Elements flowing through a pipeline are JavaScript values. The engine itself inspects
  a value in one place only (\<open>last !== undefined\<close> in \<open>LastTransducer\<close>), so the model
  keeps \<open>undefined\<close> apart from the other values. A \<open>number\<close> is an IEEE-754 double; the
  model has the doubles whose value is an integer (\<open>Num n\<close>, with \<open>n\<close> representable, the
  two zeros taken as one), the two infinities and \<open>NaN\<close>. Doubles with a fractional part
  are not modelled.
\<close>

datatype jsval =
    Undefined | NaN | PosInfinity | NegInfinity | Num int | Bool bool | Str string

datatype js_error = TypeError

type_synonym mapper = "jsval \<Rightarrow> jsval"
type_synonym predicate = "jsval \<Rightarrow> bool"

text \<open>
  \<open>interface Reducer<A, B> { call(accumilator: B, instance: A): B; identity(): B }\<close>.
  Mappers, predicates and reducers are taken to be pure and to return normally.
\<close>

record reducer =
  call :: "jsval \<Rightarrow> jsval \<Rightarrow> jsval"
  identity :: "unit \<Rightarrow> jsval"

section \<open>Transducers\<close>

text \<open>
  The seven classes whose \<open>sync\<close>/\<open>async_\<close> methods are generator functions, with
  their fields. \<open>ScanTransducer.accumilator\<close> and \<open>TakeTransducer.count\<close> are mutable
  fields of the transducer object.
\<close>

datatype stage =
    FirstTransducer
  | LastTransducer
  | MapTransducer mapper
  | FilterTransducer predicate
  | ScanTransducer reducer jsval
  | TakeTransducer int
  | TakeWhileTransducer predicate

text \<open>
  The class hierarchy below \<open>Transducer\<close>: the identity, a generator-based stage, or a
  \<open>CompositeTransducer a b\<close> (public fields \<open>a\<close>, the first stage, and \<open>b\<close>).
\<close>

datatype transducer =
    IdentityTransducer
  | Stage stage
  | CompositeTransducer transducer transducer

text \<open>\<open>compose(b, a)\<close> returns \<open>new CompositeTransducer(a, b)\<close>.\<close>

definition compose :: "transducer \<Rightarrow> transducer \<Rightarrow> transducer" where
  "compose b a = CompositeTransducer a b"

fun decompose :: "transducer \<Rightarrow> transducer list" where
  "decompose (CompositeTransducer a b) = decompose a @ decompose b"
| "decompose t = [t]"

definition first :: "transducer \<Rightarrow> transducer" where
  "first t = compose (Stage FirstTransducer) t"

definition last_t :: "transducer \<Rightarrow> transducer" where
  "last_t t = compose (Stage LastTransducer) t"

definition map_t :: "mapper \<Rightarrow> transducer \<Rightarrow> transducer" where
  "map_t m t = compose (Stage (MapTransducer m)) t"

definition filter_t :: "predicate \<Rightarrow> transducer \<Rightarrow> transducer" where
  "filter_t p t = compose (Stage (FilterTransducer p)) t"

definition find_t :: "predicate \<Rightarrow> transducer \<Rightarrow> transducer" where
  "find_t p t = first (filter_t p t)"

text \<open>
  \<open>new ScanTransducer(reducer)\<close>: the constructor's default argument seeds the
  accumulator with \<open>reducer.identity()\<close>.
\<close>

definition scan :: "reducer \<Rightarrow> transducer \<Rightarrow> transducer" where
  "scan r t = compose (Stage (ScanTransducer r (identity r ()))) t"

definition reduce :: "reducer \<Rightarrow> transducer \<Rightarrow> transducer" where
  "reduce r t = last_t (scan r t)"

definition take_t :: "int \<Rightarrow> transducer \<Rightarrow> transducer" where
  "take_t n t = compose (Stage (TakeTransducer n)) t"

definition takeWhile_t :: "predicate \<Rightarrow> transducer \<Rightarrow> transducer" where
  "takeWhile_t p t = compose (Stage (TakeWhileTransducer p)) t"

section \<open>Iterators and generator objects\<close>

text \<open>
  The states of a generator object. \<open>Executing\<close> is the state of the body while it runs
  the head of its \<open>for\<close> loop; it is never observed between two pulls.
\<close>

datatype gstate = SuspendedStart | Executing | SuspendedYield | Completed

text \<open>
  The iterators a pipeline is made of.
  \<^item> \<open>NotIterable\<close>: what a loop gets from a value that lacks the iteration protocol
    it asks for; JavaScript raises \<open>TypeError\<close> when the loop starts.
  \<^item> \<open>ArrayIterator xs i n\<close>: the built-in iterator of the array \<open>xs\<close> at index \<open>i\<close>;
    \<open>n\<close> counts the calls of \<open>next()\<close> made on it so far (instrumentation only).
  \<^item> \<open>IterateGenerator st f v\<close>: the generator object of \<open>iterate(f, v)\<close>; \<open>v\<close> is the
    captured variable \<open>value\<close>.
  \<^item> \<open>DelegatingGenerator st it\<close>: a generator whose body is \<open>yield* it\<close>.
  \<^item> \<open>TransducerGenerator st t last up\<close>: the generator object made by calling \<open>sync\<close>
    or \<open>async_\<close> of the stage \<open>t\<close> on \<open>up\<close>. It carries the fields of \<open>this\<close> it reads
    and writes, and the local variable \<open>last\<close> of \<open>LastTransducer\<close>'s body
    (\<open>Undefined\<close> until assigned, unused by the other stages).
\<close>

datatype iter =
    NotIterable
  | ArrayIterator "jsval list" nat nat
  | IterateGenerator gstate mapper jsval
  | DelegatingGenerator gstate iter
  | TransducerGenerator gstate stage jsval iter

text \<open>
  \<open>return()\<close>, which a \<open>for\<close> loop calls on its iterator when the loop is left early.
  An array iterator has no such method. A generator suspended at a \<open>yield\<close> inside its
  own \<open>for\<close> loop (or \<open>yield*\<close>) leaves that loop in turn, closing its upstream;
  \<open>LastTransducer\<close> yields after its loop has ended, and a generator that has not
  started owns no iterator yet.
\<close>

fun return_it :: "iter \<Rightarrow> iter" where
  "return_it NotIterable = NotIterable"
| "return_it (ArrayIterator xs i n) = ArrayIterator xs i n"
| "return_it (IterateGenerator st f v) = IterateGenerator Completed f v"
| "return_it (DelegatingGenerator st it) =
     (case st of
        SuspendedYield \<Rightarrow> DelegatingGenerator Completed (return_it it)
      | _ \<Rightarrow> DelegatingGenerator Completed it)"
| "return_it (TransducerGenerator st t l up) =
     (case st of
        SuspendedYield \<Rightarrow>
          (case t of
             LastTransducer \<Rightarrow> TransducerGenerator Completed t l up
           | _ \<Rightarrow> TransducerGenerator Completed t l (return_it up))
      | _ \<Rightarrow> TransducerGenerator Completed t l up)"

text \<open>
  The outcome of one call of \<open>next()\<close>: \<open>{value, done: false}\<close>, \<open>{done: true}\<close>, or an
  exception.
\<close>

datatype step = Yield jsval | Done | Throw js_error

section \<open>Synchronous execution\<close>

text \<open>
  One call of \<open>next()\<close> on an iterator of a synchronous pipeline. The result is the
  outcome of the pull and the iterator as the pull leaves it; \<open>None\<close> is a pull that never
  returns (a \<open>for\<close> loop of \<open>FilterTransducer\<close> or \<open>LastTransducer\<close> running forever over
  an unbounded upstream).

  For a \<open>TransducerGenerator\<close> the branches follow the bodies of the \<open>sync\<close> methods:
  \<^item> \<open>SuspendedStart\<close>: the code before the loop (\<open>if (this.count == 0) return\<close> of
    \<open>TakeTransducer\<close>, nothing elsewhere), then the head of the loop;
  \<^item> \<open>SuspendedYield\<close>: the code after the \<open>yield\<close> (\<open>return\<close> of \<open>FirstTransducer\<close>,
    \<open>if ((--this.count) == 0) return\<close> of \<open>TakeTransducer\<close>, the end of the body of
    \<open>LastTransducer\<close>), then the head of the loop;
  \<^item> \<open>Executing\<close>: the head of the loop pulls upstream; on \<open>done\<close> the loop ends, on a
    value the body of the loop runs up to its \<open>yield\<close>, \<open>return\<close> or next iteration.
  A \<open>return\<close> inside the loop closes the upstream iterator; an exception of the upstream
  passes through and completes the generator.
\<close>

partial_function (option) next_sync :: "iter \<Rightarrow> (step \<times> iter) option" where
  "next_sync it =
     (case it of
        NotIterable \<Rightarrow> Some (Throw TypeError, NotIterable)
      | ArrayIterator xs i n \<Rightarrow>
          (if i < length xs then Some (Yield (xs ! i), ArrayIterator xs (Suc i) (Suc n))
           else Some (Done, ArrayIterator xs i (Suc n)))
      | IterateGenerator st f v \<Rightarrow>
          (case st of
             SuspendedStart \<Rightarrow> Some (Yield v, IterateGenerator SuspendedYield f v)
           | SuspendedYield \<Rightarrow> Some (Yield (f v), IterateGenerator SuspendedYield f (f v))
           | Executing \<Rightarrow> Some (Throw TypeError, it)
           | Completed \<Rightarrow> Some (Done, it))
      | DelegatingGenerator st inner \<Rightarrow>
          (case st of
             Completed \<Rightarrow> Some (Done, it)
           | Executing \<Rightarrow> Some (Throw TypeError, it)
           | _ \<Rightarrow>
              do {
                (r, inner') \<leftarrow> next_sync inner;
                (case r of
                   Yield a \<Rightarrow> Some (Yield a, DelegatingGenerator SuspendedYield inner')
                 | Done \<Rightarrow> Some (Done, DelegatingGenerator Completed inner')
                 | Throw e \<Rightarrow> Some (Throw e, DelegatingGenerator Completed inner'))
              })
      | TransducerGenerator st t l up \<Rightarrow>
          (case st of
             Completed \<Rightarrow> Some (Done, it)
           | SuspendedStart \<Rightarrow>
               (case t of
                  TakeTransducer c \<Rightarrow>
                    (if c = 0 then Some (Done, TransducerGenerator Completed t l up)
                     else next_sync (TransducerGenerator Executing t l up))
                | _ \<Rightarrow> next_sync (TransducerGenerator Executing t l up))
           | SuspendedYield \<Rightarrow>
               (case t of
                  FirstTransducer \<Rightarrow>
                    Some (Done, TransducerGenerator Completed t l (return_it up))
                | LastTransducer \<Rightarrow> Some (Done, TransducerGenerator Completed t l up)
                | TakeTransducer c \<Rightarrow>
                    (if c - 1 = 0
                     then Some (Done, TransducerGenerator Completed (TakeTransducer (c - 1)) l
                                  (return_it up))
                     else next_sync (TransducerGenerator Executing (TakeTransducer (c - 1)) l up))
                | _ \<Rightarrow> next_sync (TransducerGenerator Executing t l up))
           | Executing \<Rightarrow>
               do {
                 (r, up') \<leftarrow> next_sync up;
                 (case r of
                    Throw e \<Rightarrow> Some (Throw e, TransducerGenerator Completed t l up')
                  | Done \<Rightarrow>
                      (case t of
                         LastTransducer \<Rightarrow>
                           (case l of
                              Undefined \<Rightarrow> Some (Done, TransducerGenerator Completed t l up')
                            | _ \<Rightarrow> Some (Yield l, TransducerGenerator SuspendedYield t l up'))
                       | _ \<Rightarrow> Some (Done, TransducerGenerator Completed t l up'))
                  | Yield a \<Rightarrow>
                      (case t of
                         FirstTransducer \<Rightarrow>
                           Some (Yield a, TransducerGenerator SuspendedYield t l up')
                       | LastTransducer \<Rightarrow> next_sync (TransducerGenerator Executing t a up')
                       | MapTransducer m \<Rightarrow>
                           Some (Yield (m a), TransducerGenerator SuspendedYield t l up')
                       | FilterTransducer p \<Rightarrow>
                           (if p a then Some (Yield a, TransducerGenerator SuspendedYield t l up')
                            else next_sync (TransducerGenerator Executing t l up'))
                       | ScanTransducer rd acc \<Rightarrow>
                           Some (Yield (call rd acc a),
                                 TransducerGenerator SuspendedYield
                                   (ScanTransducer rd (call rd acc a)) l up')
                       | TakeTransducer c \<Rightarrow>
                           Some (Yield a, TransducerGenerator SuspendedYield t l up')
                       | TakeWhileTransducer p \<Rightarrow>
                           (if p a then Some (Yield a, TransducerGenerator SuspendedYield t l up')
                            else Some (Done, TransducerGenerator Completed t l (return_it up')))))
               }))"

declare next_sync.simps [code]

text \<open>
  \<open>sync\<close> of each class: the identity returns its argument, a composite runs \<open>a\<close> then
  \<open>b\<close>, and a generator method returns a generator object that has not started.
\<close>

fun sync :: "transducer \<Rightarrow> iter \<Rightarrow> iter" where
  "sync IdentityTransducer it = it"
| "sync (Stage t) it = TransducerGenerator SuspendedStart t Undefined it"
| "sync (CompositeTransducer a b) it = sync b (sync a it)"

text \<open>
  \<open>[...iterable]\<close>: pull until \<open>done\<close>, collecting the values; an exception ends the
  collection. \<open>None\<close> when the pulling never ends.
\<close>

partial_function (option) drain_sync :: "iter \<Rightarrow> ((js_error + jsval list) \<times> iter) option" where
  "drain_sync it =
     do {
       (r, it') \<leftarrow> next_sync it;
       (case r of
          Done \<Rightarrow> Some (Inr [], it')
        | Throw e \<Rightarrow> Some (Inl e, it')
        | Yield a \<Rightarrow>
            do {
              (res, it'') \<leftarrow> drain_sync it';
              Some (case res of Inl e \<Rightarrow> Inl e | Inr ys \<Rightarrow> Inr (a # ys), it'')
            })
     }"

declare drain_sync.simps [code]

section \<open>Asynchronous execution\<close>

text \<open>
  One call of \<open>next()\<close> on an iterator of an asynchronous pipeline, awaited: the bodies of
  the \<open>async_\<close> methods, read as for \<open>next_sync\<close>. Pulls of one pipeline are strictly
  sequential, so a promise is modelled by the outcome it settles to.
\<close>

partial_function (option) next_async :: "iter \<Rightarrow> (step \<times> iter) option" where
  "next_async it =
     (case it of
        NotIterable \<Rightarrow> Some (Throw TypeError, NotIterable)
      | ArrayIterator xs i n \<Rightarrow>
          (if i < length xs then Some (Yield (xs ! i), ArrayIterator xs (Suc i) (Suc n))
           else Some (Done, ArrayIterator xs i (Suc n)))
      | IterateGenerator st f v \<Rightarrow>
          (case st of
             SuspendedStart \<Rightarrow> Some (Yield v, IterateGenerator SuspendedYield f v)
           | SuspendedYield \<Rightarrow> Some (Yield (f v), IterateGenerator SuspendedYield f (f v))
           | Executing \<Rightarrow> Some (Throw TypeError, it)
           | Completed \<Rightarrow> Some (Done, it))
      | DelegatingGenerator st inner \<Rightarrow>
          (case st of
             Completed \<Rightarrow> Some (Done, it)
           | Executing \<Rightarrow> Some (Throw TypeError, it)
           | _ \<Rightarrow>
              do {
                (r, inner') \<leftarrow> next_async inner;
                (case r of
                   Yield a \<Rightarrow> Some (Yield a, DelegatingGenerator SuspendedYield inner')
                 | Done \<Rightarrow> Some (Done, DelegatingGenerator Completed inner')
                 | Throw e \<Rightarrow> Some (Throw e, DelegatingGenerator Completed inner'))
              })
      | TransducerGenerator st t l up \<Rightarrow>
          (case st of
             Completed \<Rightarrow> Some (Done, it)
           | SuspendedStart \<Rightarrow>
               (case t of
                  TakeTransducer c \<Rightarrow>
                    (if c = 0 then Some (Done, TransducerGenerator Completed t l up)
                     else next_async (TransducerGenerator Executing t l up))
                | _ \<Rightarrow> next_async (TransducerGenerator Executing t l up))
           | SuspendedYield \<Rightarrow>
               (case t of
                  FirstTransducer \<Rightarrow>
                    Some (Done, TransducerGenerator Completed t l (return_it up))
                | LastTransducer \<Rightarrow> Some (Done, TransducerGenerator Completed t l up)
                | TakeTransducer c \<Rightarrow>
                    (if c - 1 = 0
                     then Some (Done, TransducerGenerator Completed (TakeTransducer (c - 1)) l
                                  (return_it up))
                     else next_async (TransducerGenerator Executing (TakeTransducer (c - 1)) l up))
                | _ \<Rightarrow> next_async (TransducerGenerator Executing t l up))
           | Executing \<Rightarrow>
               do {
                 (r, up') \<leftarrow> next_async up;
                 (case r of
                    Throw e \<Rightarrow> Some (Throw e, TransducerGenerator Completed t l up')
                  | Done \<Rightarrow>
                      (case t of
                         LastTransducer \<Rightarrow>
                           (case l of
                              Undefined \<Rightarrow> Some (Done, TransducerGenerator Completed t l up')
                            | _ \<Rightarrow> Some (Yield l, TransducerGenerator SuspendedYield t l up'))
                       | _ \<Rightarrow> Some (Done, TransducerGenerator Completed t l up'))
                  | Yield a \<Rightarrow>
                      (case t of
                         FirstTransducer \<Rightarrow>
                           Some (Yield a, TransducerGenerator SuspendedYield t l up')
                       | LastTransducer \<Rightarrow> next_async (TransducerGenerator Executing t a up')
                       | MapTransducer m \<Rightarrow>
                           Some (Yield (m a), TransducerGenerator SuspendedYield t l up')
                       | FilterTransducer p \<Rightarrow>
                           (if p a then Some (Yield a, TransducerGenerator SuspendedYield t l up')
                            else next_async (TransducerGenerator Executing t l up'))
                       | ScanTransducer rd acc \<Rightarrow>
                           Some (Yield (call rd acc a),
                                 TransducerGenerator SuspendedYield
                                   (ScanTransducer rd (call rd acc a)) l up')
                       | TakeTransducer c \<Rightarrow>
                           Some (Yield a, TransducerGenerator SuspendedYield t l up')
                       | TakeWhileTransducer p \<Rightarrow>
                           (if p a then Some (Yield a, TransducerGenerator SuspendedYield t l up')
                            else Some (Done, TransducerGenerator Completed t l (return_it up')))))
               }))"

declare next_async.simps [code]

fun async :: "transducer \<Rightarrow> iter \<Rightarrow> iter" where
  "async IdentityTransducer it = it"
| "async (Stage t) it = TransducerGenerator SuspendedStart t Undefined it"
| "async (CompositeTransducer a b) it = async b (async a it)"

text \<open>The loop of \<open>asyncArray\<close>: \<open>for await (const value of iterable) result.push(value)\<close>.\<close>

partial_function (option) drain_async :: "iter \<Rightarrow> ((js_error + jsval list) \<times> iter) option" where
  "drain_async it =
     do {
       (r, it') \<leftarrow> next_async it;
       (case r of
          Done \<Rightarrow> Some (Inr [], it')
        | Throw e \<Rightarrow> Some (Inl e, it')
        | Yield a \<Rightarrow>
            do {
              (res, it'') \<leftarrow> drain_async it';
              Some (case res of Inl e \<Rightarrow> Inl e | Inr ys \<Rightarrow> Inr (a # ys), it'')
            })
     }"

declare drain_async.simps [code]

section \<open>Sources, facades and the factory\<close>

text \<open>
  What the factory and the facades see of a source object: its two iteration methods,
  \<open>[Symbol.iterator]\<close> and \<open>[Symbol.asyncIterator]\<close>, each absent (\<open>undefined\<close>) or
  present. A present method either makes a new iterator at every call, as an array does,
  or returns the object itself with the state it has reached, as a generator object does.
\<close>

datatype iterator_method = ReturnsNew iter | ReturnsThis iter

datatype js_object =
  Object (symbol_iterator: "iterator_method option")
         (symbol_asyncIterator: "iterator_method option")

definition array :: "jsval list \<Rightarrow> js_object" where
  "array xs = Object (Some (ReturnsNew (ArrayIterator xs 0 0))) None"

definition generator_object :: "iter \<Rightarrow> js_object" where
  "generator_object g = Object (Some (ReturnsThis g)) None"

definition async_generator_object :: "iter \<Rightarrow> js_object" where
  "async_generator_object g = Object None (Some (ReturnsThis g))"

text \<open>
  The argument of \<open>sequence\<close>: a function (\<open>typeof iterable == 'function'\<close>) or any other
  value; a value is \<open>null\<close>/\<open>undefined\<close>, on which reading a property raises, or an
  object.
\<close>

datatype jsany = Nullish | Obj js_object

datatype source = Function "unit \<Rightarrow> jsany" | Value jsany

text \<open>
  \<open>Sequence\<close> and \<open>AsyncSequence\<close> have the same two public fields. The factory returns
  an instance of one of them, or falls off its end and returns \<open>undefined\<close>.
\<close>

record facade =
  iterable :: js_object
  transducer :: transducer

datatype sequence_result = Sequence facade | AsyncSequence facade | ReturnsUndefined

definition isIterable :: "js_object \<Rightarrow> bool" where
  "isIterable instance = (case symbol_iterator instance of None \<Rightarrow> False | Some m \<Rightarrow> True)"

definition isAsyncIterable :: "js_object \<Rightarrow> bool" where
  "isAsyncIterable instance =
     (case symbol_asyncIterator instance of None \<Rightarrow> False | Some m \<Rightarrow> True)"

text \<open>
  \<open>Sequence.of\<close> and \<open>AsyncSequence.of\<close>: the constructor's default argument puts
  \<open>identity()\<close> where no transducer is given.
\<close>

definition Sequence_of :: "js_object \<Rightarrow> transducer option \<Rightarrow> sequence_result" where
  "Sequence_of ob t =
     Sequence \<lparr>iterable = ob,
               transducer = (case t of None \<Rightarrow> IdentityTransducer | Some t' \<Rightarrow> t')\<rparr>"

definition AsyncSequence_of :: "js_object \<Rightarrow> transducer option \<Rightarrow> sequence_result" where
  "AsyncSequence_of ob t =
     AsyncSequence \<lparr>iterable = ob,
                    transducer = (case t of None \<Rightarrow> IdentityTransducer | Some t' \<Rightarrow> t')\<rparr>"

text \<open>
  The factory. Both branches of the source start with \<open>isIterable(iterable)\<close>, which
  reads a property of its argument and so raises \<open>TypeError\<close> on \<open>null\<close>/\<open>undefined\<close>.
\<close>

definition sequence :: "source \<Rightarrow> transducer option \<Rightarrow> js_error + sequence_result" where
  "sequence src t =
     (let it = (case src of Function f \<Rightarrow> f () | Value v \<Rightarrow> v) in
      case it of
        Nullish \<Rightarrow> Inl TypeError
      | Obj ob \<Rightarrow>
          (case t of
             None \<Rightarrow>
               (if isIterable ob then Inr (Sequence_of ob None)
                else if isAsyncIterable ob then Inr (AsyncSequence_of ob None)
                else Inr ReturnsUndefined)
           | Some t' \<Rightarrow>
               (if isIterable ob then Inr (Sequence_of ob (Some t'))
                else if isAsyncIterable ob then Inr (AsyncSequence_of ob (Some t'))
                else Inr ReturnsUndefined)))"

text \<open>The methods of the \<open>Contract\<close> interface, as calls with their arguments.\<close>

datatype contract_call =
    Map mapper
  | Filter predicate
  | Find predicate
  | First
  | Last
  | Take int
  | TakeWhile predicate
  | Scan reducer
  | Reduce reducer

text \<open>
  The methods of class \<open>Sequence\<close>, one equation each. \<open>this.transducer.map(mapper)\<close> is
  \<open>map(mapper, this.transducer)\<close>, and so on for the other methods of \<open>Transducer\<close>.
\<close>

fun Sequence_method :: "contract_call \<Rightarrow> facade \<Rightarrow> js_error + sequence_result" where
  "Sequence_method (Map m) s =
     sequence (Value (Obj (iterable s))) (Some (map_t m (transducer s)))"
| "Sequence_method (Filter p) s =
     sequence (Value (Obj (iterable s))) (Some (filter_t p (transducer s)))"
| "Sequence_method (Find p) s =
     sequence (Value (Obj (iterable s))) (Some (find_t p (transducer s)))"
| "Sequence_method First s =
     sequence (Value (Obj (iterable s))) (Some (first (transducer s)))"
| "Sequence_method Last s =
     sequence (Value (Obj (iterable s))) (Some (first (transducer s)))"
| "Sequence_method (Take n) s =
     sequence (Value (Obj (iterable s))) (Some (take_t n (transducer s)))"
| "Sequence_method (TakeWhile p) s =
     sequence (Value (Obj (iterable s))) (Some (takeWhile_t p (transducer s)))"
| "Sequence_method (Scan r) s =
     sequence (Value (Obj (iterable s))) (Some (scan r (transducer s)))"
| "Sequence_method (Reduce r) s =
     sequence (Value (Obj (iterable s))) (Some (reduce r (transducer s)))"

text \<open>The methods of class \<open>AsyncSequence\<close>.\<close>

fun AsyncSequence_method :: "contract_call \<Rightarrow> facade \<Rightarrow> js_error + sequence_result" where
  "AsyncSequence_method (Map m) s =
     sequence (Value (Obj (iterable s))) (Some (map_t m (transducer s)))"
| "AsyncSequence_method (Filter p) s =
     sequence (Value (Obj (iterable s))) (Some (filter_t p (transducer s)))"
| "AsyncSequence_method (Find p) s =
     sequence (Value (Obj (iterable s))) (Some (find_t p (transducer s)))"
| "AsyncSequence_method First s =
     sequence (Value (Obj (iterable s))) (Some (first (transducer s)))"
| "AsyncSequence_method Last s =
     sequence (Value (Obj (iterable s))) (Some (last_t (transducer s)))"
| "AsyncSequence_method (Take n) s =
     sequence (Value (Obj (iterable s))) (Some (take_t n (transducer s)))"
| "AsyncSequence_method (TakeWhile p) s =
     sequence (Value (Obj (iterable s))) (Some (takeWhile_t p (transducer s)))"
| "AsyncSequence_method (Scan r) s =
     sequence (Value (Obj (iterable s))) (Some (scan r (transducer s)))"
| "AsyncSequence_method (Reduce r) s =
     sequence (Value (Obj (iterable s))) (Some (reduce r (transducer s)))"

text \<open>
  A method call \<open>x.m(...)\<close> on what the factory returned: dispatch on the class of \<open>x\<close>;
  calling a method of \<open>undefined\<close> raises, and an exception raised earlier stays.
\<close>

definition invoke :: "contract_call \<Rightarrow> js_error + sequence_result \<Rightarrow> js_error + sequence_result" where
  "invoke m x =
     (case x of
        Inl e \<Rightarrow> Inl e
      | Inr (Sequence s) \<Rightarrow> Sequence_method m s
      | Inr (AsyncSequence s) \<Rightarrow> AsyncSequence_method m s
      | Inr ReturnsUndefined \<Rightarrow> Inl TypeError)"

text \<open>A pipeline definition: a chain of method calls, applied left to right.\<close>

definition chain :: "contract_call list \<Rightarrow> js_error + sequence_result \<Rightarrow> js_error + sequence_result" where
  "chain ms x = foldl (\<lambda>y m. invoke m y) x ms"

section \<open>Consumption\<close>

text \<open>
  \<open>iterable[Symbol.iterator]()\<close> and \<open>iterable[Symbol.asyncIterator]()\<close> as a loop
  calls them when it starts. A \<open>Sequence\<close> is typed over an \<open>Iterable\<close> source and an
  \<open>AsyncSequence\<close> over an \<open>AsyncIterable\<close> one. On an object without
  \<open>[Symbol.iterator]\<close> a \<open>for\<close> loop raises \<open>TypeError\<close>. For an object without
  \<open>[Symbol.asyncIterator]\<close>, which the type of \<open>AsyncSequence\<close> excludes, the model answers
  \<open>TypeError\<close> as well; the fallback of \<open>for await\<close> to the synchronous iterator of such
  an object is not modelled.
\<close>

definition get_iterator :: "js_object \<Rightarrow> iter" where
  "get_iterator ob =
     (case symbol_iterator ob of
        None \<Rightarrow> NotIterable
      | Some (ReturnsNew it) \<Rightarrow> it
      | Some (ReturnsThis it) \<Rightarrow> it)"

definition get_async_iterator :: "js_object \<Rightarrow> iter" where
  "get_async_iterator ob =
     (case symbol_asyncIterator ob of
        None \<Rightarrow> NotIterable
      | Some (ReturnsNew it) \<Rightarrow> it
      | Some (ReturnsThis it) \<Rightarrow> it)"

text \<open>
  \<open>Sequence[Symbol.iterator]()\<close> is \<open>this.transducer.sync(this.iterable)[Symbol.iterator]()\<close>
  and \<open>AsyncSequence[Symbol.asyncIterator]()\<close> is
  \<open>this.transducer.async_(this.iterable)[Symbol.asyncIterator]()\<close>.
\<close>

definition Sequence_iterator :: "facade \<Rightarrow> iter" where
  "Sequence_iterator s = sync (transducer s) (get_iterator (iterable s))"

definition AsyncSequence_iterator :: "facade \<Rightarrow> iter" where
  "AsyncSequence_iterator s = async (transducer s) (get_async_iterator (iterable s))"

text \<open>
  The source mutates its objects in place; the model hands them back. \<open>settle t it\<close>
  reads the transducer objects of \<open>t\<close> off the generator objects \<open>sync t\<close> (or \<open>async t\<close>)
  made, with the fields \<open>count\<close> and \<open>accumilator\<close> as the run left them, and returns the
  iterator of the source below them. \<open>put_iterator\<close> stores that iterator in a source
  object that is its own iterator; an object that makes a new iterator at every call
  keeps no trace of the run. Two facades derived from one parent share the parent's
  transducer objects in the source; the model follows one facade at a time.
\<close>

fun settle :: "transducer \<Rightarrow> iter \<Rightarrow> transducer \<times> iter" where
  "settle IdentityTransducer it = (IdentityTransducer, it)"
| "settle (Stage t) it =
     (case it of
        TransducerGenerator st t' l up \<Rightarrow> (Stage t', up)
      | _ \<Rightarrow> (Stage t, it))"
| "settle (CompositeTransducer a b) it =
     (case settle b it of
        (b', it1) \<Rightarrow> (case settle a it1 of (a', it0) \<Rightarrow> (CompositeTransducer a' b', it0)))"

definition put_iterator :: "js_object \<Rightarrow> iter \<Rightarrow> js_object" where
  "put_iterator ob it =
     (case symbol_iterator ob of
        Some (ReturnsThis g) \<Rightarrow> Object (Some (ReturnsThis it)) (symbol_asyncIterator ob)
      | _ \<Rightarrow> ob)"

definition put_async_iterator :: "js_object \<Rightarrow> iter \<Rightarrow> js_object" where
  "put_async_iterator ob it =
     (case symbol_asyncIterator ob of
        Some (ReturnsThis g) \<Rightarrow> Object (symbol_iterator ob) (Some (ReturnsThis it))
      | _ \<Rightarrow> ob)"

text \<open>
  \<open>syncArray(s)\<close> for a \<open>Sequence\<close> \<open>s\<close>: the array produced (or the exception raised), the
  facade as the run left it, and the iterator of the source as the run left it.
  \<open>asyncArray\<close> likewise for an \<open>AsyncSequence\<close>, once its promise has settled.
\<close>

definition syncArray :: "facade \<Rightarrow> ((js_error + jsval list) \<times> facade \<times> iter) option" where
  "syncArray s =
     do {
       (res, it') \<leftarrow> drain_sync (Sequence_iterator s);
       (case settle (transducer s) it' of
          (t', src') \<Rightarrow>
            Some (res, \<lparr>iterable = put_iterator (iterable s) src', transducer = t'\<rparr>, src'))
     }"

definition asyncArray :: "facade \<Rightarrow> ((js_error + jsval list) \<times> facade \<times> iter) option" where
  "asyncArray s =
     do {
       (res, it') \<leftarrow> drain_async (AsyncSequence_iterator s);
       (case settle (transducer s) it' of
          (t', src') \<Rightarrow>
            Some (res, \<lparr>iterable = put_async_iterator (iterable s) src', transducer = t'\<rparr>, src'))
     }"

text \<open>
  The array a caller gets from \<open>syncArray(x)\<close>, resp. \<open>await asyncArray(x)\<close>, where \<open>x\<close> is
  what a chain of calls returned. Spreading needs \<open>[Symbol.iterator]\<close>, which only a
  \<open>Sequence\<close> has. \<open>for await\<close> takes \<open>[Symbol.asyncIterator]\<close> and, where that is missing,
  \<open>[Symbol.iterator]\<close>: handed a \<open>Sequence\<close>, it collects what the synchronous iteration
  yields. \<open>undefined\<close> has neither.
\<close>

definition sync_output :: "js_error + sequence_result \<Rightarrow> (js_error + jsval list) option" where
  "sync_output x =
     (case x of
        Inr (Sequence s) \<Rightarrow> map_option fst (syncArray s)
      | Inl e \<Rightarrow> Some (Inl e)
      | _ \<Rightarrow> Some (Inl TypeError))"

definition async_output :: "js_error + sequence_result \<Rightarrow> (js_error + jsval list) option" where
  "async_output x =
     (case x of
        Inr (AsyncSequence s) \<Rightarrow> map_option fst (asyncArray s)
      | Inr (Sequence s) \<Rightarrow> map_option fst (syncArray s)
      | Inr ReturnsUndefined \<Rightarrow> Some (Inl TypeError)
      | Inl e \<Rightarrow> Some (Inl e))"

section \<open>Reducers and numeric generators\<close>

text \<open>
  The double nearest to an integer. Integers of magnitude below \<open>2^53\<close> are doubles;
  from \<open>2^53\<close> on, neighbouring doubles are \<open>2\<close> apart, from \<open>2^54\<close> on \<open>4\<close> apart, and so
  on. An integer between two doubles goes to the nearer one and, half way, to the one
  whose 53-bit significand is even. What lands at \<open>2^1024\<close> or beyond is an infinity.
\<close>

function double_spacing :: "int \<Rightarrow> int" where
  "double_spacing m = (if m < 2 ^ 53 then 1 else 2 * double_spacing (m div 2))"
  by pat_completeness auto
termination
  by (relation "measure nat") auto

declare double_spacing.simps [simp del]

definition nearest_double :: "int \<Rightarrow> int" where
  "nearest_double n =
     (let m = \<bar>n\<bar>; u = double_spacing m; q = m div u; r = m mod u
      in sgn n * ((if u < 2 * r \<or> (2 * r = u \<and> odd q) then q + 1 else q) * u))"

definition to_number :: "int \<Rightarrow> jsval" where
  "to_number n =
     (let r = nearest_double n
      in if 2 ^ 1024 \<le> r then PosInfinity
         else if r \<le> - (2 ^ 1024) then NegInfinity
         else Num r)"

text \<open>
  \<open>a + b\<close> and \<open>a - b\<close> on numbers: the exact result, rounded once; an infinity absorbs a
  finite operand, and \<open>Infinity - Infinity\<close> is \<open>NaN\<close>. The source applies them to
  operands declared \<open>number\<close> only; on any other operand the model answers \<open>NaN\<close>.
\<close>

definition js_plus :: "jsval \<Rightarrow> jsval \<Rightarrow> jsval" where
  "js_plus a b =
     (case a of
        Num x \<Rightarrow>
          (case b of
             Num y \<Rightarrow> to_number (x + y)
           | PosInfinity \<Rightarrow> PosInfinity
           | NegInfinity \<Rightarrow> NegInfinity
           | _ \<Rightarrow> NaN)
      | PosInfinity \<Rightarrow>
          (case b of Num y \<Rightarrow> PosInfinity | PosInfinity \<Rightarrow> PosInfinity | _ \<Rightarrow> NaN)
      | NegInfinity \<Rightarrow>
          (case b of Num y \<Rightarrow> NegInfinity | NegInfinity \<Rightarrow> NegInfinity | _ \<Rightarrow> NaN)
      | _ \<Rightarrow> NaN)"

definition js_minus :: "jsval \<Rightarrow> jsval \<Rightarrow> jsval" where
  "js_minus a b =
     (case a of
        Num x \<Rightarrow>
          (case b of
             Num y \<Rightarrow> to_number (x - y)
           | PosInfinity \<Rightarrow> NegInfinity
           | NegInfinity \<Rightarrow> PosInfinity
           | _ \<Rightarrow> NaN)
      | PosInfinity \<Rightarrow>
          (case b of Num y \<Rightarrow> PosInfinity | NegInfinity \<Rightarrow> PosInfinity | _ \<Rightarrow> NaN)
      | NegInfinity \<Rightarrow>
          (case b of Num y \<Rightarrow> NegInfinity | PosInfinity \<Rightarrow> NegInfinity | _ \<Rightarrow> NaN)
      | _ \<Rightarrow> NaN)"

text \<open>
  \<open>a <= b\<close> and \<open>a >= b\<close> on numbers; every comparison with \<open>NaN\<close> is false. On operands
  that are not numbers, which the source never compares, the model answers false.
\<close>

definition js_le :: "jsval \<Rightarrow> jsval \<Rightarrow> bool" where
  "js_le a b =
     (case a of
        Num x \<Rightarrow> (case b of Num y \<Rightarrow> x \<le> y | PosInfinity \<Rightarrow> True | _ \<Rightarrow> False)
      | NegInfinity \<Rightarrow>
          (case b of Num y \<Rightarrow> True | PosInfinity \<Rightarrow> True | NegInfinity \<Rightarrow> True | _ \<Rightarrow> False)
      | PosInfinity \<Rightarrow> (case b of PosInfinity \<Rightarrow> True | _ \<Rightarrow> False)
      | _ \<Rightarrow> False)"

definition js_ge :: "jsval \<Rightarrow> jsval \<Rightarrow> bool" where
  "js_ge a b = js_le b a"

text \<open>\<open>class Sum implements Reducer<number, number>\<close> and its instance \<open>sum\<close>.\<close>

definition Sum :: reducer where
  "Sum = \<lparr>call = (\<lambda>a b. js_plus a b), identity = (\<lambda>u. Num 0)\<rparr>"


text \<open>The one-argument overloads \<open>add(a)\<close> and \<open>subtract(a)\<close>, which return a function.\<close>

definition add :: "jsval \<Rightarrow> jsval \<Rightarrow> jsval" where
  "add a = (\<lambda>b. js_plus a b)"

definition subtract :: "jsval \<Rightarrow> jsval \<Rightarrow> jsval" where
  "subtract a = (\<lambda>b. js_minus b a)"





section \<open>Repeated consumption\<close>

text \<open>
  \<open>reconsume k s\<close>: \<open>syncArray\<close> of the facade \<open>s\<close> after \<open>k\<close> earlier calls of \<open>syncArray\<close> on
  it, each run to its end.
\<close>

fun reconsume :: "nat \<Rightarrow> facade \<Rightarrow> ((js_error + jsval list) \<times> facade \<times> iter) option" where
  "reconsume 0 s = syncArray s"
| "reconsume (Suc k) s =
     (case syncArray s of
        None \<Rightarrow> None
      | Some (res, s', src') \<Rightarrow> reconsume k s')"

section \<open>Arithmetic on integer-valued doubles\<close>

lemma double_spacing_small: "m < 2 ^ 53 \<Longrightarrow> double_spacing m = 1"
  by (simp add: double_spacing.simps)

lemma double_spacing_at_2_53: "double_spacing 9007199254740992 = 2"
  by (subst double_spacing.simps) (simp add: double_spacing_small)

lemma nearest_double_exact:
  assumes "\<bar>n\<bar> \<le> 2 ^ 53"
  shows "nearest_double n = n"
proof (cases "\<bar>n\<bar> < 2 ^ 53")
  case True
  then have "double_spacing \<bar>n\<bar> = 1" by (rule double_spacing_small)
  then show ?thesis
    by (simp add: nearest_double_def Let_def mult_sgn_abs)
next
  case False
  with assms have n: "\<bar>n\<bar> = 9007199254740992" by simp
  then have "nearest_double n = sgn n * 9007199254740992"
    by (simp add: nearest_double_def double_spacing_at_2_53 Let_def)
  also have "\<dots> = sgn n * \<bar>n\<bar>" by (simp only: n)
  finally show ?thesis by (simp only: mult_sgn_abs)
qed

lemma to_number_exact: "\<bar>n\<bar> \<le> 2 ^ 53 \<Longrightarrow> to_number n = Num n"
proof -
  assume a: "\<bar>n\<bar> \<le> 2 ^ 53"
  have "(2 :: int) ^ 53 < 2 ^ 1024" by (rule power_strict_increasing) simp_all
  with a have "n < 2 ^ 1024" and "- (2 ^ 1024) < n" by linarith+
  then show ?thesis by (simp add: to_number_def nearest_double_exact [OF a] Let_def)
qed

lemma js_arith_Num:
  "js_plus (Num a) (Num b) = to_number (a + b)"
  "js_minus (Num a) (Num b) = to_number (a - b)"
  "add (Num a) (Num b) = to_number (a + b)"
  "subtract (Num a) (Num b) = to_number (b - a)"
  "js_le (Num a) (Num b) = (a \<le> b)"
  "js_ge (Num a) (Num b) = (a \<ge> b)"
  by (simp_all add: add_def subtract_def js_plus_def js_minus_def js_le_def js_ge_def)

section \<open>The pull step, case by case\<close>

lemma next_sync_NotIterable: "next_sync NotIterable = Some (Throw TypeError, NotIterable)"
  by (subst next_sync.simps) simp

lemma next_sync_Array:
  "next_sync (ArrayIterator xs i n) =
     (if i < length xs then Some (Yield (xs ! i), ArrayIterator xs (Suc i) (Suc n))
      else Some (Done, ArrayIterator xs i (Suc n)))"
  by (subst next_sync.simps) simp

lemma next_sync_Iterate:
  "next_sync (IterateGenerator SuspendedStart f v) =
     Some (Yield v, IterateGenerator SuspendedYield f v)"
  "next_sync (IterateGenerator SuspendedYield f v) =
     Some (Yield (f v), IterateGenerator SuspendedYield f (f v))"
  "next_sync (IterateGenerator Completed f v) = Some (Done, IterateGenerator Completed f v)"
  by (subst next_sync.simps, simp)+

lemma next_sync_Delegating:
  "next_sync (DelegatingGenerator Completed inner) =
     Some (Done, DelegatingGenerator Completed inner)"
  "st = SuspendedStart \<or> st = SuspendedYield \<Longrightarrow>
   next_sync (DelegatingGenerator st inner) =
     (case next_sync inner of
        None \<Rightarrow> None
      | Some (Yield a, inner') \<Rightarrow> Some (Yield a, DelegatingGenerator SuspendedYield inner')
      | Some (Done, inner') \<Rightarrow> Some (Done, DelegatingGenerator Completed inner')
      | Some (Throw e, inner') \<Rightarrow> Some (Throw e, DelegatingGenerator Completed inner'))"
  by (subst next_sync.simps, auto split: option.splits step.splits)+

lemma next_sync_Completed:
  "next_sync (TransducerGenerator Completed t l up) =
     Some (Done, TransducerGenerator Completed t l up)"
  by (subst next_sync.simps) simp

lemma next_sync_Start:
  "next_sync (TransducerGenerator SuspendedStart t l up) =
     (case t of
        TakeTransducer c \<Rightarrow>
          (if c = 0 then Some (Done, TransducerGenerator Completed t l up)
           else next_sync (TransducerGenerator Executing t l up))
      | _ \<Rightarrow> next_sync (TransducerGenerator Executing t l up))"
  by (subst next_sync.simps) simp

lemma next_sync_Resume:
  "next_sync (TransducerGenerator SuspendedYield t l up) =
     (case t of
        FirstTransducer \<Rightarrow> Some (Done, TransducerGenerator Completed t l (return_it up))
      | LastTransducer \<Rightarrow> Some (Done, TransducerGenerator Completed t l up)
      | TakeTransducer c \<Rightarrow>
          (if c - 1 = 0
           then Some (Done, TransducerGenerator Completed (TakeTransducer (c - 1)) l
                        (return_it up))
           else next_sync (TransducerGenerator Executing (TakeTransducer (c - 1)) l up))
      | _ \<Rightarrow> next_sync (TransducerGenerator Executing t l up))"
  by (subst next_sync.simps) simp

lemma next_sync_Executing:
  "next_sync (TransducerGenerator Executing t l up) =
     (case next_sync up of
        None \<Rightarrow> None
      | Some (Throw e, up') \<Rightarrow> Some (Throw e, TransducerGenerator Completed t l up')
      | Some (Done, up') \<Rightarrow>
          (case t of
             LastTransducer \<Rightarrow>
               (case l of
                  Undefined \<Rightarrow> Some (Done, TransducerGenerator Completed t l up')
                | _ \<Rightarrow> Some (Yield l, TransducerGenerator SuspendedYield t l up'))
           | _ \<Rightarrow> Some (Done, TransducerGenerator Completed t l up'))
      | Some (Yield a, up') \<Rightarrow>
          (case t of
             FirstTransducer \<Rightarrow> Some (Yield a, TransducerGenerator SuspendedYield t l up')
           | LastTransducer \<Rightarrow> next_sync (TransducerGenerator Executing t a up')
           | MapTransducer m \<Rightarrow>
               Some (Yield (m a), TransducerGenerator SuspendedYield t l up')
           | FilterTransducer p \<Rightarrow>
               (if p a then Some (Yield a, TransducerGenerator SuspendedYield t l up')
                else next_sync (TransducerGenerator Executing t l up'))
           | ScanTransducer rd acc \<Rightarrow>
               Some (Yield (call rd acc a),
                     TransducerGenerator SuspendedYield (ScanTransducer rd (call rd acc a)) l up')
           | TakeTransducer c \<Rightarrow> Some (Yield a, TransducerGenerator SuspendedYield t l up')
           | TakeWhileTransducer p \<Rightarrow>
               (if p a then Some (Yield a, TransducerGenerator SuspendedYield t l up')
                else Some (Done, TransducerGenerator Completed t l (return_it up'))))) "
  by (subst next_sync.simps) (simp split: option.splits step.splits prod.splits)

lemmas next_sync_rules =
  next_sync_NotIterable next_sync_Array next_sync_Iterate next_sync_Delegating
  next_sync_Completed next_sync_Start next_sync_Resume next_sync_Executing

lemma drain_sync_step:
  "drain_sync it =
     (case next_sync it of
        None \<Rightarrow> None
      | Some (Done, it') \<Rightarrow> Some (Inr [], it')
      | Some (Throw e, it') \<Rightarrow> Some (Inl e, it')
      | Some (Yield a, it') \<Rightarrow>
          (case drain_sync it' of
             None \<Rightarrow> None
           | Some (Inl e, it'') \<Rightarrow> Some (Inl e, it'')
           | Some (Inr ys, it'') \<Rightarrow> Some (Inr (a # ys), it'')))"
  by (subst drain_sync.simps) (simp split: option.splits step.splits prod.splits sum.splits)



lemma drain_sync_cong: "next_sync a = next_sync b \<Longrightarrow> drain_sync a = drain_sync b"
  unfolding drain_sync_step [of a] drain_sync_step [of b] by simp

lemma settle_sync: "settle t (sync t src) = (t, src)"
  by (induction t arbitrary: src) simp_all

lemma put_get_iterator: "put_iterator ob (get_iterator ob) = ob"
  by (cases ob) (simp add: put_iterator_def get_iterator_def split: option.splits iterator_method.splits)

lemma drain_sync_Array:
  "i \<le> length xs \<Longrightarrow>
   drain_sync (ArrayIterator xs i n) =
     Some (Inr (drop i xs), ArrayIterator xs (length xs) (Suc (n + (length xs - i))))"
proof (induction "length xs - i" arbitrary: i n)
  case 0
  then show ?case by (simp add: drain_sync_step next_sync_Array)
next
  case (Suc k)
  then have lt: "i < length xs" by simp
  have "length xs - Suc i = k" using Suc by simp
  with Suc have ih: "drain_sync (ArrayIterator xs (Suc i) (Suc n)) =
     Some (Inr (drop (Suc i) xs), ArrayIterator xs (length xs) (Suc (Suc n + (length xs - Suc i))))"
    using lt by (metis Suc_leI)
  show ?case
    using lt ih by (subst drain_sync_step) (simp add: next_sync_Array Cons_nth_drop_Suc Suc_diff_Suc)
qed

lemma drain_sync_Resume_Take:
  "c - 1 \<noteq> 0 \<Longrightarrow>
   drain_sync (TransducerGenerator SuspendedYield (TakeTransducer c) l up) =
   drain_sync (TransducerGenerator Executing (TakeTransducer (c - 1)) l up)"
  by (rule drain_sync_cong) (simp add: next_sync_Resume)

lemma drain_sync_Start:
  "(case t of TakeTransducer c \<Rightarrow> c \<noteq> 0 | _ \<Rightarrow> True) \<Longrightarrow>
   drain_sync (TransducerGenerator SuspendedStart t l up) =
   drain_sync (TransducerGenerator Executing t l up)"
  by (rule drain_sync_cong) (cases t; simp add: next_sync_Start)

lemma drain_sync_Take_Array:
  "0 < k \<Longrightarrow> i + k \<le> length xs \<Longrightarrow>
   drain_sync (TransducerGenerator Executing (TakeTransducer (int k)) l (ArrayIterator xs i n)) =
     Some (Inr (take k (drop i xs)),
           TransducerGenerator Completed (TakeTransducer 0) l (ArrayIterator xs (i + k) (n + k)))"
proof (induction k arbitrary: i n)
  case 0
  then show ?case by simp
next
  case (Suc k)
  then have lt: "i < length xs" by simp
  show ?case
  proof (cases "k = 0")
    case True
    then show ?thesis using lt
      by (subst drain_sync_step, simp add: next_sync_rules)
         (subst drain_sync_step, simp add: next_sync_rules take_Suc_conv_app_nth hd_drop_conv_nth Cons_nth_drop_Suc [symmetric])
  next
    case False
    then have "drain_sync (TransducerGenerator Executing (TakeTransducer (int k)) l
                 (ArrayIterator xs (Suc i) (Suc n))) =
               Some (Inr (take k (drop (Suc i) xs)),
                 TransducerGenerator Completed (TakeTransducer 0) l
                   (ArrayIterator xs (Suc i + k) (Suc n + k)))"
      using Suc by simp
    moreover have "drain_sync (TransducerGenerator SuspendedYield (TakeTransducer (int (Suc k))) l
                 (ArrayIterator xs (Suc i) (Suc n))) =
         drain_sync (TransducerGenerator Executing (TakeTransducer (int k)) l
                 (ArrayIterator xs (Suc i) (Suc n)))"
      using False drain_sync_Resume_Take [of "int (Suc k)"] by simp
    ultimately show ?thesis using lt
      by (subst drain_sync_step) (simp add: next_sync_rules Cons_nth_drop_Suc [symmetric])
  qed
qed




lemma drain_sync_induct [consumes 1, case_names Done Throw Yield]:
  assumes d: "drain_sync up = Some r"
    and dn: "\<And>it it'. next_sync it = Some (Done, it') \<Longrightarrow> P it (Inr [], it')"
    and thr: "\<And>it e it'. next_sync it = Some (Throw e, it') \<Longrightarrow> P it (Inl e, it')"
    and yld: "\<And>it a it1 res it2.
       next_sync it = Some (Yield a, it1) \<Longrightarrow> drain_sync it1 = Some (res, it2) \<Longrightarrow>
       P it1 (res, it2) \<Longrightarrow>
       P it (case res of Inl e \<Rightarrow> Inl e | Inr ys \<Rightarrow> Inr (a # ys), it2)"
  shows "P up r"
proof -
  have "drain_sync up = Some r \<and> P up r"
  proof (rule drain_sync.raw_induct [OF _ d])
    fix drain :: "iter \<Rightarrow> ((js_error + jsval list) \<times> iter) option" and it r
    assume IH: "\<And>x y. drain x = Some y \<Longrightarrow> drain_sync x = Some y \<and> P x y"
    assume body: "next_sync it \<bind>
       (\<lambda>(r, it').
           case r of
             Yield a \<Rightarrow>
               drain it' \<bind>
               (\<lambda>(res, it'').
                   Some (case res of Inl e \<Rightarrow> Inl e | Inr ys \<Rightarrow> Inr (a # ys), it''))
           | Done \<Rightarrow> Some (Inr [], it')
           | Throw e \<Rightarrow> Some (Inl e, it')) = Some r"
    from body obtain st it1 where nx: "next_sync it = Some (st, it1)"
      by (auto split: bind_splits)
    show "drain_sync it = Some r \<and> P it r"
    proof (cases st)
      case Done
      with nx body dn [of it it1] show ?thesis
        by (subst drain_sync_step) auto
    next
      case (Throw e)
      with nx body thr [of it e it1] show ?thesis
        by (subst drain_sync_step) auto
    next
      case (Yield a)
      with nx body obtain res it2 where
        d1: "drain it1 = Some (res, it2)" and
        r: "r = (case res of Inl e \<Rightarrow> Inl e | Inr ys \<Rightarrow> Inr (a # ys), it2)"
        by (auto split: bind_splits)
      from IH [OF d1] have d2: "drain_sync it1 = Some (res, it2)" and p: "P it1 (res, it2)"
        by simp_all
      from nx Yield d2 r have "drain_sync it = Some r"
        by (subst drain_sync_step) (simp split: sum.splits)
      moreover from yld [OF _ d2 p] nx Yield r have "P it r" by simp
      ultimately show ?thesis by simp
    qed
  qed
  then show ?thesis by simp
qed

lemma drain_sync_Take_neg:
  assumes "drain_sync up = Some r"
  shows "c < 0 \<Longrightarrow>
         \<exists>c'. c' \<le> c \<and>
           drain_sync (TransducerGenerator Executing (TakeTransducer c) l up) =
             Some (fst r, TransducerGenerator Completed (TakeTransducer c') l (snd r))"
  using assms
proof (induction arbitrary: c rule: drain_sync_induct)
  case (Done it it')
  then show ?case by (subst drain_sync_step) (auto simp: next_sync_rules)
next
  case (Throw it e it')
  then show ?case by (subst drain_sync_step) (auto simp: next_sync_rules)
next
  case (Yield it a it1 res it2)
  have "c - 1 < 0" using Yield.prems by simp
  from Yield.IH [OF this] obtain c' where
    c': "c' \<le> c - 1" and
    ih: "drain_sync (TransducerGenerator Executing (TakeTransducer (c - 1)) l it1) =
           Some (res, TransducerGenerator Completed (TakeTransducer c') l it2)"
    by auto
  have "drain_sync (TransducerGenerator SuspendedYield (TakeTransducer c) l it1) =
        Some (res, TransducerGenerator Completed (TakeTransducer c') l it2)"
    using ih drain_sync_Resume_Take [of c l it1] Yield.prems by simp
  then have "drain_sync (TransducerGenerator Executing (TakeTransducer c) l it) =
        Some (case res of Inl e \<Rightarrow> Inl e | Inr ys \<Rightarrow> Inr (a # ys),
              TransducerGenerator Completed (TakeTransducer c') l it2)"
    using Yield.hyps
    by (subst drain_sync_step) (simp add: next_sync_rules split: sum.splits)
  with c' show ?case by (intro exI [of _ c']) simp
qed

lemma map_upt_Suc_shift: "map f [0..<Suc n] = f 0 # map (\<lambda>k. f (Suc k)) [0..<n]"
  by (simp add: map_upt_Suc del: upt_Suc)

lemma drain_sync_Scan:
  assumes "drain_sync up = Some r"
  shows "fst r = Inr ys \<Longrightarrow>
         drain_sync (TransducerGenerator Executing (ScanTransducer rd acc) l up) =
           Some (Inr (map (\<lambda>k. foldl (call rd) acc (take (Suc k) ys)) [0..<length ys]),
                 TransducerGenerator Completed (ScanTransducer rd (foldl (call rd) acc ys)) l
                   (snd r))"
  using assms
proof (induction arbitrary: ys acc rule: drain_sync_induct)
  case (Done it it')
  then show ?case by (subst drain_sync_step) (auto simp: next_sync_rules)
next
  case (Throw it e it')
  then show ?case by simp
next
  case (Yield it a it1 res it2)
  from Yield.prems obtain ys' where res: "res = Inr ys'" and ys: "ys = a # ys'"
    by (auto split: sum.splits)
  have ih: "drain_sync (TransducerGenerator Executing (ScanTransducer rd (call rd acc a)) l it1) =
         Some (Inr (map (\<lambda>k. foldl (call rd) (call rd acc a) (take (Suc k) ys')) [0..<length ys']),
               TransducerGenerator Completed
                 (ScanTransducer rd (foldl (call rd) (call rd acc a) ys')) l it2)"
    using Yield.IH [of ys' "call rd acc a"] res by simp
  have "drain_sync (TransducerGenerator SuspendedYield (ScanTransducer rd (call rd acc a)) l it1) =
        drain_sync (TransducerGenerator Executing (ScanTransducer rd (call rd acc a)) l it1)"
    by (rule drain_sync_cong) (simp add: next_sync_Resume)
  with ih Yield.hyps ys res show ?case
    by (subst drain_sync_step) (simp add: next_sync_rules map_upt_Suc_shift del: upt_Suc)
qed

lemma next_sync_Last:
  assumes "drain_sync up = Some r"
  shows "fst r = Inr ys \<Longrightarrow>
         next_sync (TransducerGenerator Executing LastTransducer l up) =
           (case last (l # ys) of
              Undefined \<Rightarrow>
                Some (Done, TransducerGenerator Completed LastTransducer Undefined (snd r))
            | _ \<Rightarrow>
                Some (Yield (last (l # ys)),
                      TransducerGenerator SuspendedYield LastTransducer (last (l # ys)) (snd r)))"
  using assms
proof (induction arbitrary: ys l rule: drain_sync_induct)
  case (Done it it')
  then show ?case by (auto simp: next_sync_rules split: jsval.splits)
next
  case (Throw it e it')
  then show ?case by simp
next
  case (Yield it a it1 res it2)
  from Yield.prems obtain ys' where res: "res = Inr ys'" and ys: "ys = a # ys'"
    by (auto split: sum.splits)
  have step: "next_sync (TransducerGenerator Executing LastTransducer l it) =
              next_sync (TransducerGenerator Executing LastTransducer a it1)"
    using Yield.hyps(1) by (simp add: next_sync_Executing)
  have lst: "last (l # ys) = last (a # ys')" using ys by simp
  have snd: "snd (case res of Inl e \<Rightarrow> Inl e | Inr ys \<Rightarrow> Inr (a # ys), it2) = snd (res, it2)"
    by simp
  from Yield.IH [of ys' a] res show ?case
    unfolding step lst snd by simp
qed

section \<open>The asynchronous pull step, case by case\<close>

lemma next_async_NotIterable: "next_async NotIterable = Some (Throw TypeError, NotIterable)"
  by (subst next_async.simps) simp

lemma next_async_Array:
  "next_async (ArrayIterator xs i n) =
     (if i < length xs then Some (Yield (xs ! i), ArrayIterator xs (Suc i) (Suc n))
      else Some (Done, ArrayIterator xs i (Suc n)))"
  by (subst next_async.simps) simp

lemma next_async_Iterate:
  "next_async (IterateGenerator SuspendedStart f v) =
     Some (Yield v, IterateGenerator SuspendedYield f v)"
  "next_async (IterateGenerator SuspendedYield f v) =
     Some (Yield (f v), IterateGenerator SuspendedYield f (f v))"
  "next_async (IterateGenerator Completed f v) = Some (Done, IterateGenerator Completed f v)"
  by (subst next_async.simps, simp)+

lemma next_async_Delegating:
  "next_async (DelegatingGenerator Completed inner) =
     Some (Done, DelegatingGenerator Completed inner)"
  "st = SuspendedStart \<or> st = SuspendedYield \<Longrightarrow>
   next_async (DelegatingGenerator st inner) =
     (case next_async inner of
        None \<Rightarrow> None
      | Some (Yield a, inner') \<Rightarrow> Some (Yield a, DelegatingGenerator SuspendedYield inner')
      | Some (Done, inner') \<Rightarrow> Some (Done, DelegatingGenerator Completed inner')
      | Some (Throw e, inner') \<Rightarrow> Some (Throw e, DelegatingGenerator Completed inner'))"
  by (subst next_async.simps, auto split: option.splits step.splits)+

lemma next_async_Completed:
  "next_async (TransducerGenerator Completed t l up) =
     Some (Done, TransducerGenerator Completed t l up)"
  by (subst next_async.simps) simp

lemma next_async_Start:
  "next_async (TransducerGenerator SuspendedStart t l up) =
     (case t of
        TakeTransducer c \<Rightarrow>
          (if c = 0 then Some (Done, TransducerGenerator Completed t l up)
           else next_async (TransducerGenerator Executing t l up))
      | _ \<Rightarrow> next_async (TransducerGenerator Executing t l up))"
  by (subst next_async.simps) simp

lemma next_async_Resume:
  "next_async (TransducerGenerator SuspendedYield t l up) =
     (case t of
        FirstTransducer \<Rightarrow> Some (Done, TransducerGenerator Completed t l (return_it up))
      | LastTransducer \<Rightarrow> Some (Done, TransducerGenerator Completed t l up)
      | TakeTransducer c \<Rightarrow>
          (if c - 1 = 0
           then Some (Done, TransducerGenerator Completed (TakeTransducer (c - 1)) l
                        (return_it up))
           else next_async (TransducerGenerator Executing (TakeTransducer (c - 1)) l up))
      | _ \<Rightarrow> next_async (TransducerGenerator Executing t l up))"
  by (subst next_async.simps) simp

lemma next_async_Executing:
  "next_async (TransducerGenerator Executing t l up) =
     (case next_async up of
        None \<Rightarrow> None
      | Some (Throw e, up') \<Rightarrow> Some (Throw e, TransducerGenerator Completed t l up')
      | Some (Done, up') \<Rightarrow>
          (case t of
             LastTransducer \<Rightarrow>
               (case l of
                  Undefined \<Rightarrow> Some (Done, TransducerGenerator Completed t l up')
                | _ \<Rightarrow> Some (Yield l, TransducerGenerator SuspendedYield t l up'))
           | _ \<Rightarrow> Some (Done, TransducerGenerator Completed t l up'))
      | Some (Yield a, up') \<Rightarrow>
          (case t of
             FirstTransducer \<Rightarrow> Some (Yield a, TransducerGenerator SuspendedYield t l up')
           | LastTransducer \<Rightarrow> next_async (TransducerGenerator Executing t a up')
           | MapTransducer m \<Rightarrow>
               Some (Yield (m a), TransducerGenerator SuspendedYield t l up')
           | FilterTransducer p \<Rightarrow>
               (if p a then Some (Yield a, TransducerGenerator SuspendedYield t l up')
                else next_async (TransducerGenerator Executing t l up'))
           | ScanTransducer rd acc \<Rightarrow>
               Some (Yield (call rd acc a),
                     TransducerGenerator SuspendedYield (ScanTransducer rd (call rd acc a)) l up')
           | TakeTransducer c \<Rightarrow> Some (Yield a, TransducerGenerator SuspendedYield t l up')
           | TakeWhileTransducer p \<Rightarrow>
               (if p a then Some (Yield a, TransducerGenerator SuspendedYield t l up')
                else Some (Done, TransducerGenerator Completed t l (return_it up'))))) "
  by (subst next_async.simps) (simp split: option.splits step.splits prod.splits)

lemmas next_async_rules =
  next_async_NotIterable next_async_Array next_async_Iterate next_async_Delegating
  next_async_Completed next_async_Start next_async_Resume next_async_Executing

lemma drain_async_step:
  "drain_async it =
     (case next_async it of
        None \<Rightarrow> None
      | Some (Done, it') \<Rightarrow> Some (Inr [], it')
      | Some (Throw e, it') \<Rightarrow> Some (Inl e, it')
      | Some (Yield a, it') \<Rightarrow>
          (case drain_async it' of
             None \<Rightarrow> None
           | Some (Inl e, it'') \<Rightarrow> Some (Inl e, it'')
           | Some (Inr ys, it'') \<Rightarrow> Some (Inr (a # ys), it'')))"
  by (subst drain_async.simps) (simp split: option.splits step.splits prod.splits sum.splits)

section \<open>Unfolding bundles for concrete runs\<close>

lemmas facade_defs =
  sequence_def isIterable_def isAsyncIterable_def Sequence_of_def AsyncSequence_of_def
  invoke_def chain_def array_def generator_object_def async_generator_object_def
  first_def last_t_def map_t_def filter_t_def find_t_def scan_def reduce_def take_t_def
  takeWhile_t_def compose_def

lemmas run_sync_defs =
  sync_output_def syncArray_def Sequence_iterator_def get_iterator_def put_iterator_def
  drain_sync_step next_sync_rules

lemmas run_async_defs =
  async_output_def asyncArray_def AsyncSequence_iterator_def get_async_iterator_def
  put_async_iterator_def drain_async_step next_async_rules

section \<open>The facade method \<open>last\<close>\<close>

text \<open>
  Claim C1. The claim: consuming \<open>Sequence.last()\<close> over a non-empty finite source yields
  exactly the final element, and the facade composes the Last transducer onto the stack.
  The code: \<open>Sequence.last\<close> calls \<open>this.transducer.first()\<close>, so the stage composed is a
  \<open>FirstTransducer\<close>, and over \<open>[1, 2, 3]\<close> the facade yields \<open>[1]\<close>, not \<open>[3]\<close>.
  \<open>AsyncSequence.last\<close> calls \<open>this.transducer.last()\<close>.
\<close>

theorem Sequence_last_composes_first:
  "Sequence_method Last \<lparr>iterable = array [Num 1, Num 2, Num 3], transducer = IdentityTransducer\<rparr> =
     Inr (Sequence \<lparr>iterable = array [Num 1, Num 2, Num 3],
                    transducer = CompositeTransducer IdentityTransducer (Stage FirstTransducer)\<rparr>)
   \<and> sync_output (chain [Last] (sequence (Value (Obj (array [Num 1, Num 2, Num 3]))) None)) =
       Some (Inr [Num 1])"
  by (simp add: facade_defs run_sync_defs)

text \<open>
  Claim C2. The claim: the same chain of methods, driven over the same elements, yields
  the same output through the synchronous and the asynchronous facade. The code: for the
  chain \<open>last()\<close> over \<open>[1, 2, 3]\<close> the synchronous facade yields \<open>[1]\<close> and the asynchronous
  facade, over the source \<open>async function* () { yield* [1, 2, 3] }\<close>, yields \<open>[3]\<close>.
\<close>

theorem sync_and_async_last_differ:
  "sync_output (chain [Last] (sequence (Value (Obj (array [Num 1, Num 2, Num 3]))) None)) =
     Some (Inr [Num 1])
   \<and> async_output
       (chain [Last]
          (sequence
             (Value (Obj (async_generator_object
                (DelegatingGenerator SuspendedStart (ArrayIterator [Num 1, Num 2, Num 3] 0 0)))))
             None)) =
     Some (Inr [Num 3])"
  by (simp add: facade_defs run_sync_defs run_async_defs)

section \<open>Chaining on a \<open>Sequence\<close>\<close>

lemma Sequence_method_iterable:
  "isIterable (iterable s) \<Longrightarrow>
   Sequence_method m s =
     Inr (Sequence (s\<lparr>transducer :=
       (case m of
          Map f \<Rightarrow> map_t f (transducer s)
        | Filter p \<Rightarrow> filter_t p (transducer s)
        | Find p \<Rightarrow> find_t p (transducer s)
        | First \<Rightarrow> first (transducer s)
        | Last \<Rightarrow> first (transducer s)
        | Take n \<Rightarrow> take_t n (transducer s)
        | TakeWhile p \<Rightarrow> takeWhile_t p (transducer s)
        | Scan r \<Rightarrow> scan r (transducer s)
        | Reduce r \<Rightarrow> reduce r (transducer s))\<rparr>))"
  by (cases m) (simp_all add: sequence_def Sequence_of_def)

section \<open>\<open>take(0)\<close>\<close>

text \<open>
  Claim C3. For every \<open>Sequence\<close> \<open>S\<close> (its source is iterable, as its type says),
  \<open>S.take(0)\<close> is a \<open>Sequence\<close> whose consumption yields the empty array and pulls nothing:
  the iterator of the source is, after the run, as \<open>S.iterable[Symbol.iterator]()\<close> returned
  it (for an array: index 0 and no call of \<open>next()\<close>), and the whole iterator of \<open>S\<close> under
  the \<open>take\<close> stage has not started. The source need not even be finite.
\<close>

theorem take_zero_pulls_nothing:
  assumes "isIterable (iterable s)"
  shows "Sequence_method (Take 0) s = Inr (Sequence (s\<lparr>transducer := take_t 0 (transducer s)\<rparr>))
    \<and> syncArray (s\<lparr>transducer := take_t 0 (transducer s)\<rparr>) =
        Some (Inr [], s\<lparr>transducer := take_t 0 (transducer s)\<rparr>, get_iterator (iterable s))
    \<and> drain_sync (Sequence_iterator (s\<lparr>transducer := take_t 0 (transducer s)\<rparr>)) =
        Some (Inr [],
              TransducerGenerator Completed (TakeTransducer 0) Undefined (Sequence_iterator s))"
proof (intro conjI)
  show "Sequence_method (Take 0) s = Inr (Sequence (s\<lparr>transducer := take_t 0 (transducer s)\<rparr>))"
    using Sequence_method_iterable [OF assms, of "Take 0"] by simp
  show d: "drain_sync (Sequence_iterator (s\<lparr>transducer := take_t 0 (transducer s)\<rparr>)) =
        Some (Inr [],
              TransducerGenerator Completed (TakeTransducer 0) Undefined (Sequence_iterator s))"
    by (subst drain_sync_step)
       (simp add: Sequence_iterator_def take_t_def compose_def next_sync_Start)
  show "syncArray (s\<lparr>transducer := take_t 0 (transducer s)\<rparr>) =
        Some (Inr [], s\<lparr>transducer := take_t 0 (transducer s)\<rparr>, get_iterator (iterable s))"
    unfolding syncArray_def d
    by (simp add: take_t_def compose_def Sequence_iterator_def settle_sync put_get_iterator)
qed

theorem take_zero_pulls_nothing_witness:
  "isIterable (array [Num 1, Num 2])
   \<and> syncArray \<lparr>iterable = array [Num 1, Num 2], transducer = take_t 0 IdentityTransducer\<rparr> =
       Some (Inr [], \<lparr>iterable = array [Num 1, Num 2], transducer = take_t 0 IdentityTransducer\<rparr>,
             ArrayIterator [Num 1, Num 2] 0 0)"
  using take_zero_pulls_nothing
          [of "\<lparr>iterable = array [Num 1, Num 2], transducer = IdentityTransducer\<rparr>"]
  by (simp add: isIterable_def array_def get_iterator_def)

section \<open>Negative counts\<close>

lemma syncArray_take_zero:
  "syncArray (s\<lparr>transducer := take_t 0 (transducer s)\<rparr>) =
     Some (Inr [], s\<lparr>transducer := take_t 0 (transducer s)\<rparr>, get_iterator (iterable s))"
proof -
  have "drain_sync (Sequence_iterator (s\<lparr>transducer := take_t 0 (transducer s)\<rparr>)) =
        Some (Inr [],
              TransducerGenerator Completed (TakeTransducer 0) Undefined (Sequence_iterator s))"
    by (subst drain_sync_step)
       (simp add: Sequence_iterator_def take_t_def compose_def next_sync_Start)
  then show ?thesis
    unfolding syncArray_def
    by (simp add: take_t_def compose_def Sequence_iterator_def settle_sync put_get_iterator)
qed

lemma syncArray_parts:
  assumes "syncArray s = Some (res, s', src')"
  obtains it' where "drain_sync (Sequence_iterator s) = Some (res, it')"
    and "settle (transducer s) it' = (transducer s', src')"
    and "iterable s' = put_iterator (iterable s) src'"
  using assms unfolding syncArray_def
  by (auto split: bind_splits prod.splits)

text \<open>
  Claim C10. For every negative count \<open>n\<close> and every \<open>Sequence\<close> \<open>S\<close> whose consumption ends
  with the elements \<open>ys\<close>, consuming \<open>S.take(n)\<close> yields all of \<open>ys\<close>: the stage stops only
  when its count is exactly zero, and the count it is left with, \<open>c'\<close>, is at most \<open>n\<close>,
  so still negative. The source and the stages of \<open>S\<close> are left as consuming \<open>S\<close> itself
  leaves them.
\<close>

theorem take_negative_yields_all:
  assumes "n < 0" and "isIterable (iterable s)" and "syncArray s = Some (Inr ys, s', src')"
  shows "Sequence_method (Take n) s = Inr (Sequence (s\<lparr>transducer := take_t n (transducer s)\<rparr>))
    \<and> (\<exists>c'. c' \<le> n \<and>
          syncArray (s\<lparr>transducer := take_t n (transducer s)\<rparr>) =
            Some (Inr ys,
                  s'\<lparr>transducer := CompositeTransducer (transducer s') (Stage (TakeTransducer c'))\<rparr>,
                  src'))"
proof
  show "Sequence_method (Take n) s = Inr (Sequence (s\<lparr>transducer := take_t n (transducer s)\<rparr>))"
    using Sequence_method_iterable [OF assms(2), of "Take n"] by simp
  from assms(3) obtain it' where
    d: "drain_sync (Sequence_iterator s) = Some (Inr ys, it')" and
    st: "settle (transducer s) it' = (transducer s', src')" and
    it: "iterable s' = put_iterator (iterable s) src'"
    by (rule syncArray_parts)
  from drain_sync_Take_neg [OF d assms(1), of Undefined] obtain c' where
    c': "c' \<le> n" and
    dt: "drain_sync (TransducerGenerator Executing (TakeTransducer n) Undefined (Sequence_iterator s)) =
           Some (Inr ys, TransducerGenerator Completed (TakeTransducer c') Undefined it')"
    by auto
  have "drain_sync (Sequence_iterator (s\<lparr>transducer := take_t n (transducer s)\<rparr>)) =
           Some (Inr ys, TransducerGenerator Completed (TakeTransducer c') Undefined it')"
    using dt assms(1) drain_sync_Start [of "TakeTransducer n" Undefined "Sequence_iterator s"]
    by (simp add: Sequence_iterator_def take_t_def compose_def)
  then have "syncArray (s\<lparr>transducer := take_t n (transducer s)\<rparr>) =
            Some (Inr ys,
                  s'\<lparr>transducer := CompositeTransducer (transducer s') (Stage (TakeTransducer c'))\<rparr>,
                  src')"
    unfolding syncArray_def using st it
    by (simp add: take_t_def compose_def)
  with c' show "\<exists>c'. c' \<le> n \<and>
          syncArray (s\<lparr>transducer := take_t n (transducer s)\<rparr>) =
            Some (Inr ys,
                  s'\<lparr>transducer := CompositeTransducer (transducer s') (Stage (TakeTransducer c'))\<rparr>,
                  src')"
    by blast
qed

lemma syncArray_array_identity:
  "syncArray \<lparr>iterable = array xs, transducer = IdentityTransducer\<rparr> =
     Some (Inr xs, \<lparr>iterable = array xs, transducer = IdentityTransducer\<rparr>,
           ArrayIterator xs (length xs) (Suc (length xs)))"
  unfolding syncArray_def
  by (simp add: Sequence_iterator_def get_iterator_def array_def put_iterator_def drain_sync_Array)

theorem take_negative_yields_all_witness:
  "(-1 :: int) < 0 \<and> isIterable (array [Num 1, Num 2, Num 3])
   \<and> map_option fst (syncArray \<lparr>iterable = array [Num 1, Num 2, Num 3], transducer = IdentityTransducer\<rparr>) =
       Some (Inr [Num 1, Num 2, Num 3])
   \<and> map_option fst
        (syncArray \<lparr>iterable = array [Num 1, Num 2, Num 3],
                    transducer = take_t (-1) IdentityTransducer\<rparr>) =
       Some (Inr [Num 1, Num 2, Num 3])"
proof -
  have neg: "(-1 :: int) < 0" by simp
  have it: "isIterable (iterable \<lparr>iterable = array [Num 1, Num 2, Num 3], transducer = IdentityTransducer\<rparr>)"
    by (simp add: isIterable_def array_def)
  from take_negative_yields_all [OF neg it syncArray_array_identity]
  show ?thesis using it by (auto simp: syncArray_array_identity)
qed

section \<open>Consuming a facade twice\<close>

lemma syncArray_take_array:
  assumes "0 < n" and "n \<le> length xs"
  shows "syncArray \<lparr>iterable = array xs, transducer = take_t (int n) IdentityTransducer\<rparr> =
     Some (Inr (take n xs),
           \<lparr>iterable = array xs, transducer = take_t 0 IdentityTransducer\<rparr>,
           ArrayIterator xs n n)"
proof -
  have "drain_sync (TransducerGenerator SuspendedStart (TakeTransducer (int n)) Undefined
          (ArrayIterator xs 0 0)) =
        Some (Inr (take n xs),
              TransducerGenerator Completed (TakeTransducer 0) Undefined (ArrayIterator xs n n))"
    using assms drain_sync_Take_Array [of n 0 xs Undefined 0]
      drain_sync_Start [of "TakeTransducer (int n)" Undefined "ArrayIterator xs 0 0"]
    by simp
  then show ?thesis
    unfolding syncArray_def
    by (simp add: Sequence_iterator_def get_iterator_def array_def put_iterator_def take_t_def
          compose_def)
qed

lemma reconsume_take_zero:
  "reconsume k \<lparr>iterable = array xs, transducer = take_t 0 IdentityTransducer\<rparr> =
     Some (Inr [], \<lparr>iterable = array xs, transducer = take_t 0 IdentityTransducer\<rparr>,
           ArrayIterator xs 0 0)"
proof -
  have one: "syncArray \<lparr>iterable = array xs, transducer = take_t 0 IdentityTransducer\<rparr> =
     Some (Inr [], \<lparr>iterable = array xs, transducer = take_t 0 IdentityTransducer\<rparr>,
           ArrayIterator xs 0 0)"
    using syncArray_take_zero [of "\<lparr>iterable = array xs, transducer = IdentityTransducer\<rparr>"]
    by (simp add: get_iterator_def array_def)
  show ?thesis by (induction k) (simp_all add: one)
qed

lemma syncArray_scan_array:
  "syncArray \<lparr>iterable = array xs,
              transducer = CompositeTransducer IdentityTransducer (Stage (ScanTransducer r acc))\<rparr> =
     Some (Inr (map (\<lambda>i. foldl (call r) acc (take (Suc i) xs)) [0..<length xs]),
           \<lparr>iterable = array xs,
            transducer = CompositeTransducer IdentityTransducer
              (Stage (ScanTransducer r (foldl (call r) acc xs)))\<rparr>,
           ArrayIterator xs (length xs) (Suc (length xs)))"
proof -
  have a: "drain_sync (ArrayIterator xs 0 0) =
             Some (Inr xs, ArrayIterator xs (length xs) (Suc (length xs)))"
    using drain_sync_Array [of 0 xs 0] by simp
  have "drain_sync (TransducerGenerator SuspendedStart (ScanTransducer r acc) Undefined
          (ArrayIterator xs 0 0)) =
        Some (Inr (map (\<lambda>i. foldl (call r) acc (take (Suc i) xs)) [0..<length xs]),
              TransducerGenerator Completed (ScanTransducer r (foldl (call r) acc xs)) Undefined
                (ArrayIterator xs (length xs) (Suc (length xs))))"
    using drain_sync_Scan [OF a, of xs r acc Undefined]
      drain_sync_Start [of "ScanTransducer r acc" Undefined "ArrayIterator xs 0 0"]
    by simp
  then show ?thesis
    unfolding syncArray_def
    by (simp add: Sequence_iterator_def get_iterator_def array_def put_iterator_def)
qed

lemma reconsume_scan_array:
  "reconsume k \<lparr>iterable = array xs,
                transducer = CompositeTransducer IdentityTransducer (Stage (ScanTransducer r acc))\<rparr> =
     Some (Inr (map (\<lambda>i. foldl (call r) (foldl (call r) acc (concat (replicate k xs)))
                            (take (Suc i) xs)) [0..<length xs]),
           \<lparr>iterable = array xs,
            transducer = CompositeTransducer IdentityTransducer
              (Stage (ScanTransducer r (foldl (call r) acc (concat (replicate (Suc k) xs)))))\<rparr>,
           ArrayIterator xs (length xs) (Suc (length xs)))"
proof (induction k arbitrary: acc)
  case 0
  show ?case by (simp add: syncArray_scan_array)
next
  case (Suc k)
  show ?case
    using Suc [of "foldl (call r) acc xs"] by (simp add: syncArray_scan_array)
qed

text \<open>
  Claim C4. For \<open>n > 0\<close> and an array \<open>xs\<close> of at least \<open>n\<close> elements, the first consumption
  of \<open>sequence(xs).take(n)\<close> yields the first \<open>n\<close> elements and leaves the count of the
  \<open>TakeTransducer\<close> at zero; every later consumption of the same facade (after \<open>k + 1\<close>
  earlier ones, for any \<open>k\<close>) yields the empty array without pulling from the array.
  For \<open>sequence(xs).scan(r)\<close> the accumulator is seeded with \<open>r.identity()\<close> when the
  facade is built and is never reset: the consumption after \<open>j\<close> earlier ones yields the
  running folds of \<open>xs\<close> seeded with the fold of \<open>j\<close> copies of \<open>xs\<close>.
\<close>

theorem take_and_scan_are_single_use:
  assumes "0 < n" and "n \<le> length xs"
  shows "chain [Take (int n)] (sequence (Value (Obj (array xs))) None) =
           Inr (Sequence \<lparr>iterable = array xs, transducer = take_t (int n) IdentityTransducer\<rparr>)
    \<and> reconsume 0 \<lparr>iterable = array xs, transducer = take_t (int n) IdentityTransducer\<rparr> =
        Some (Inr (take n xs),
              \<lparr>iterable = array xs, transducer = take_t 0 IdentityTransducer\<rparr>,
              ArrayIterator xs n n)
    \<and> reconsume (Suc k) \<lparr>iterable = array xs, transducer = take_t (int n) IdentityTransducer\<rparr> =
        Some (Inr [],
              \<lparr>iterable = array xs, transducer = take_t 0 IdentityTransducer\<rparr>,
              ArrayIterator xs 0 0)
    \<and> chain [Scan r] (sequence (Value (Obj (array xs))) None) =
           Inr (Sequence \<lparr>iterable = array xs,
                  transducer = CompositeTransducer IdentityTransducer
                    (Stage (ScanTransducer r (identity r ())))\<rparr>)
    \<and> reconsume j \<lparr>iterable = array xs,
                  transducer = CompositeTransducer IdentityTransducer
                    (Stage (ScanTransducer r (identity r ())))\<rparr> =
        Some (Inr (map (\<lambda>i. foldl (call r)
                              (foldl (call r) (identity r ()) (concat (replicate j xs)))
                              (take (Suc i) xs)) [0..<length xs]),
              \<lparr>iterable = array xs,
               transducer = CompositeTransducer IdentityTransducer
                 (Stage (ScanTransducer r
                    (foldl (call r) (identity r ()) (concat (replicate (Suc j) xs)))))\<rparr>,
              ArrayIterator xs (length xs) (Suc (length xs)))"
proof (intro conjI)
  show "chain [Take (int n)] (sequence (Value (Obj (array xs))) None) =
           Inr (Sequence \<lparr>iterable = array xs, transducer = take_t (int n) IdentityTransducer\<rparr>)"
    by (simp add: chain_def invoke_def sequence_def isIterable_def array_def Sequence_of_def)
  show "reconsume 0 \<lparr>iterable = array xs, transducer = take_t (int n) IdentityTransducer\<rparr> =
        Some (Inr (take n xs),
              \<lparr>iterable = array xs, transducer = take_t 0 IdentityTransducer\<rparr>,
              ArrayIterator xs n n)"
    using assms by (simp add: syncArray_take_array)
  show "reconsume (Suc k) \<lparr>iterable = array xs, transducer = take_t (int n) IdentityTransducer\<rparr> =
        Some (Inr [],
              \<lparr>iterable = array xs, transducer = take_t 0 IdentityTransducer\<rparr>,
              ArrayIterator xs 0 0)"
    using assms by (simp add: syncArray_take_array reconsume_take_zero)
  show "chain [Scan r] (sequence (Value (Obj (array xs))) None) =
           Inr (Sequence \<lparr>iterable = array xs,
                  transducer = CompositeTransducer IdentityTransducer
                    (Stage (ScanTransducer r (identity r ())))\<rparr>)"
    by (simp add: chain_def invoke_def sequence_def isIterable_def array_def Sequence_of_def
          scan_def compose_def)
  show "reconsume j \<lparr>iterable = array xs,
                  transducer = CompositeTransducer IdentityTransducer
                    (Stage (ScanTransducer r (identity r ())))\<rparr> =
        Some (Inr (map (\<lambda>i. foldl (call r)
                              (foldl (call r) (identity r ()) (concat (replicate j xs)))
                              (take (Suc i) xs)) [0..<length xs]),
              \<lparr>iterable = array xs,
               transducer = CompositeTransducer IdentityTransducer
                 (Stage (ScanTransducer r
                    (foldl (call r) (identity r ()) (concat (replicate (Suc j) xs)))))\<rparr>,
              ArrayIterator xs (length xs) (Suc (length xs)))"
    by (rule reconsume_scan_array)
qed

theorem take_and_scan_are_single_use_witness:
  "(0 :: nat) < 2 \<and> 2 \<le> length [Num 1, Num 2, Num 3]
   \<and> map_option fst
        (reconsume 0 \<lparr>iterable = array [Num 1, Num 2, Num 3],
                      transducer = take_t 2 IdentityTransducer\<rparr>) = Some (Inr [Num 1, Num 2])
   \<and> map_option fst
        (reconsume (Suc 0) \<lparr>iterable = array [Num 1, Num 2, Num 3],
                      transducer = take_t 2 IdentityTransducer\<rparr>) = Some (Inr [])
   \<and> map_option fst
        (reconsume (Suc 0) \<lparr>iterable = array [Num 1, Num 2, Num 3],
                      transducer = CompositeTransducer IdentityTransducer
                        (Stage (ScanTransducer Sum (identity Sum ())))\<rparr>) =
       Some (Inr [Num 7, Num 9, Num 12])"
proof -
  have h1: "(0 :: nat) < 2" by simp
  have h2: "2 \<le> length [Num 1, Num 2, Num 3]" by simp
  have folds: "map (\<lambda>i. foldl (call Sum)
                  (foldl (call Sum) (identity Sum ())
                     (concat (replicate (Suc 0) [Num 1, Num 2, Num 3])))
                  (take (Suc i) [Num 1, Num 2, Num 3])) [0..<length [Num 1, Num 2, Num 3]] =
               [Num 7, Num 9, Num 12]"
    by (simp add: Sum_def js_arith_Num to_number_exact upt_conv_Cons)
  from take_and_scan_are_single_use [OF h1 h2, of 0 Sum "Suc 0", unfolded folds]
  show ?thesis by (simp del: reconsume.simps)
qed

section \<open>\<open>reduce\<close>\<close>

lemma drain_sync_Last:
  assumes d: "drain_sync up = Some (Inr ys, up')"
  shows "drain_sync (TransducerGenerator Executing LastTransducer l up) =
           Some (Inr (case last (l # ys) of Undefined \<Rightarrow> [] | _ \<Rightarrow> [last (l # ys)]),
                 TransducerGenerator Completed LastTransducer (last (l # ys)) up')"
proof -
  have "fst (Inr ys :: js_error + jsval list, up') = Inr ys" by simp
  from next_sync_Last [OF d this, of l]
  have nx: "next_sync (TransducerGenerator Executing LastTransducer l up) =
           (case last (l # ys) of
              Undefined \<Rightarrow>
                Some (Done, TransducerGenerator Completed LastTransducer Undefined up')
            | _ \<Rightarrow>
                Some (Yield (last (l # ys)),
                      TransducerGenerator SuspendedYield LastTransducer (last (l # ys)) up'))"
    unfolding snd_conv .
  have after: "drain_sync (TransducerGenerator SuspendedYield LastTransducer v up') =
        Some (Inr [], TransducerGenerator Completed LastTransducer v up')" for v
    by (subst drain_sync_step) (simp add: next_sync_Resume)
  show ?thesis
    by (subst drain_sync_step) (cases "last (l # ys)"; simp add: nx after del: last.simps)
qed

lemma last_running_folds:
  "last (a # map (\<lambda>i. foldl f acc (take (Suc i) xs)) [0..<length xs]) =
     (if xs = [] then a else foldl f acc xs)"
proof (cases xs rule: rev_cases)
  case Nil
  then show ?thesis by simp
next
  case (snoc ys y)
  then show ?thesis by (simp add: last_map)
qed

lemma sync_output_reduce_array:
  "sync_output (chain [Reduce r] (sequence (Value (Obj (array xs))) None)) =
     Some (Inr (if xs = [] \<or> foldl (call r) (identity r ()) xs = Undefined then []
                else [foldl (call r) (identity r ()) xs]))"
proof -
  let ?scan = "TransducerGenerator SuspendedStart (ScanTransducer r (identity r ())) Undefined
                 (ArrayIterator xs 0 0)"
  let ?folds = "map (\<lambda>i. foldl (call r) (identity r ()) (take (Suc i) xs)) [0..<length xs]"
  let ?v = "last (Undefined # ?folds)"
  have a: "drain_sync (ArrayIterator xs 0 0) =
             Some (Inr xs, ArrayIterator xs (length xs) (Suc (length xs)))"
    using drain_sync_Array [of 0 xs 0] by simp
  have s: "drain_sync ?scan =
        Some (Inr ?folds,
              TransducerGenerator Completed
                (ScanTransducer r (foldl (call r) (identity r ()) xs)) Undefined
                (ArrayIterator xs (length xs) (Suc (length xs))))"
    using drain_sync_Scan [OF a, of xs r "identity r ()" Undefined]
      drain_sync_Start [of "ScanTransducer r (identity r ())" Undefined "ArrayIterator xs 0 0"]
    by simp
  have v: "?v = (if xs = [] then Undefined else foldl (call r) (identity r ()) xs)"
    by (rule last_running_folds)
  have "drain_sync (TransducerGenerator SuspendedStart LastTransducer Undefined ?scan) =
        Some (Inr (case ?v of Undefined \<Rightarrow> [] | _ \<Rightarrow> [?v]),
              TransducerGenerator Completed LastTransducer ?v
                (TransducerGenerator Completed
                  (ScanTransducer r (foldl (call r) (identity r ()) xs)) Undefined
                  (ArrayIterator xs (length xs) (Suc (length xs)))))"
    using drain_sync_Last [OF s, of Undefined]
      drain_sync_Start [of LastTransducer Undefined ?scan]
    by simp
  then have "map_option fst
      (syncArray \<lparr>iterable = array xs, transducer = reduce r IdentityTransducer\<rparr>) =
        Some (Inr (case ?v of Undefined \<Rightarrow> [] | _ \<Rightarrow> [?v]))"
    unfolding syncArray_def
    by (simp add: Sequence_iterator_def get_iterator_def array_def reduce_def last_t_def scan_def
          compose_def del: last.simps)
  moreover have "(case ?v of Undefined \<Rightarrow> [] | _ \<Rightarrow> [?v]) =
      (if xs = [] \<or> foldl (call r) (identity r ()) xs = Undefined then []
       else [foldl (call r) (identity r ()) xs])"
    unfolding v by (simp split: jsval.splits)
  ultimately show ?thesis
    by (simp add: sync_output_def chain_def invoke_def sequence_def isIterable_def array_def
          Sequence_of_def del: last.simps)
qed

text \<open>
  Claim C5. \<open>reduce(r, t)\<close> is \<open>last(scan(r, t))\<close>, and \<open>Sequence.reduce\<close> composes exactly
  that. For every array \<open>xs\<close> and reducer \<open>r\<close>, consuming \<open>sequence(xs).reduce(r)\<close> yields
  the one-element array holding the left fold of \<open>r.call\<close> over \<open>xs\<close> from \<open>r.identity()\<close>;
  it yields the empty array when \<open>xs\<close> is empty or when the folded value is \<open>undefined\<close>.
  With \<open>Sum\<close> over \<open>[1, 2, 3, 4]\<close> it yields \<open>[10]\<close>.
\<close>

theorem reduce_is_last_of_scan:
  "reduce r t = last_t (scan r t)
   \<and> Sequence_method (Reduce r) s =
       sequence (Value (Obj (iterable s))) (Some (last_t (scan r (transducer s))))
   \<and> sync_output (chain [Reduce r] (sequence (Value (Obj (array xs))) None)) =
       Some (Inr (if xs = [] \<or> foldl (call r) (identity r ()) xs = Undefined then []
                  else [foldl (call r) (identity r ()) xs]))
   \<and> sync_output
       (chain [Reduce Sum] (sequence (Value (Obj (array [Num 1, Num 2, Num 3, Num 4]))) None)) =
       Some (Inr [Num 10])"
proof (intro conjI)
  show "reduce r t = last_t (scan r t)" by (simp add: reduce_def)
  show "Sequence_method (Reduce r) s =
       sequence (Value (Obj (iterable s))) (Some (last_t (scan r (transducer s))))"
    by (simp add: reduce_def)
  show "sync_output (chain [Reduce r] (sequence (Value (Obj (array xs))) None)) =
       Some (Inr (if xs = [] \<or> foldl (call r) (identity r ()) xs = Undefined then []
                  else [foldl (call r) (identity r ()) xs]))"
    by (rule sync_output_reduce_array)
  show "sync_output
       (chain [Reduce Sum] (sequence (Value (Obj (array [Num 1, Num 2, Num 3, Num 4]))) None)) =
       Some (Inr [Num 10])"
    by (simp add: sync_output_reduce_array Sum_def js_arith_Num to_number_exact)
qed

section \<open>\<open>range\<close>\<close>














section \<open>The factory\<close>

lemma sequence_Obj:
  assumes "(case src of Function f \<Rightarrow> f () | Value v \<Rightarrow> v) = Obj ob"
  shows "sequence src t =
     Inr (if isIterable ob then Sequence_of ob t
          else if isAsyncIterable ob then AsyncSequence_of ob t
          else ReturnsUndefined)"
  using assms by (cases t) (simp_all add: sequence_def)

text \<open>
  Claim C7, as the code has it. The claim says the asynchronous capability is probed
  first, so that a value exposing both protocols gives an \<open>AsyncSequence\<close>. The code
  calls \<open>isIterable\<close> before \<open>isAsyncIterable\<close>: an object exposing both protocols gives a
  \<open>Sequence\<close>.
\<close>

theorem sequence_both_protocols_counterexample:
  "isIterable (Object (Some (ReturnsNew (ArrayIterator [Num 1] 0 0)))
                      (Some (ReturnsNew (ArrayIterator [Num 1] 0 0))))
   \<and> isAsyncIterable (Object (Some (ReturnsNew (ArrayIterator [Num 1] 0 0)))
                             (Some (ReturnsNew (ArrayIterator [Num 1] 0 0))))
   \<and> sequence (Value (Obj (Object (Some (ReturnsNew (ArrayIterator [Num 1] 0 0)))
                                   (Some (ReturnsNew (ArrayIterator [Num 1] 0 0)))))) None =
       Inr (Sequence \<lparr>iterable = Object (Some (ReturnsNew (ArrayIterator [Num 1] 0 0)))
                                        (Some (ReturnsNew (ArrayIterator [Num 1] 0 0))),
                      transducer = IdentityTransducer\<rparr>)
   \<and> sequence (Value (Obj (Object (Some (ReturnsNew (ArrayIterator [Num 1] 0 0)))
                                   (Some (ReturnsNew (ArrayIterator [Num 1] 0 0)))))) None \<noteq>
       Inr (AsyncSequence \<lparr>iterable = Object (Some (ReturnsNew (ArrayIterator [Num 1] 0 0)))
                                             (Some (ReturnsNew (ArrayIterator [Num 1] 0 0))),
                           transducer = IdentityTransducer\<rparr>)"
  by (simp add: sequence_def isIterable_def isAsyncIterable_def Sequence_of_def)

text \<open>
  Claim C7, amended. The factory calls a function argument to get the value, then probes
  the synchronous capability before the asynchronous one: a value exposing both protocols,
  or only the synchronous one, gives a \<open>Sequence\<close>; a value exposing only the asynchronous
  one gives an \<open>AsyncSequence\<close>. The transducer passed, or the identity, is the stack.
\<close>

theorem sequence_probes_sync_first:
  assumes "(case src of Function f \<Rightarrow> f () | Value v \<Rightarrow> v) = Obj ob"
  shows "(isIterable ob \<and> isAsyncIterable ob \<longrightarrow> sequence src t = Inr (Sequence_of ob t))
    \<and> (isIterable ob \<and> \<not> isAsyncIterable ob \<longrightarrow> sequence src t = Inr (Sequence_of ob t))
    \<and> (\<not> isIterable ob \<and> isAsyncIterable ob \<longrightarrow> sequence src t = Inr (AsyncSequence_of ob t))"
  using sequence_Obj [OF assms, of t] by simp

theorem sequence_probes_sync_first_witness:
  "sequence (Function (\<lambda>u. Obj (Object (Some (ReturnsThis (ArrayIterator [Num 1] 0 0)))
                                         (Some (ReturnsThis (ArrayIterator [Num 1] 0 0)))))) None =
     Inr (Sequence_of (Object (Some (ReturnsThis (ArrayIterator [Num 1] 0 0)))
                              (Some (ReturnsThis (ArrayIterator [Num 1] 0 0)))) None)
   \<and> sequence (Value (Obj (array [Num 1]))) None = Inr (Sequence_of (array [Num 1]) None)
   \<and> sequence (Value (Obj (async_generator_object (ArrayIterator [Num 1] 0 0)))) None =
       Inr (AsyncSequence_of (async_generator_object (ArrayIterator [Num 1] 0 0)) None)"
proof -
  have a: "(case Function (\<lambda>u. Obj (Object (Some (ReturnsThis (ArrayIterator [Num 1] 0 0)))
                                         (Some (ReturnsThis (ArrayIterator [Num 1] 0 0)))))
            of Function f \<Rightarrow> f () | Value v \<Rightarrow> v) =
           Obj (Object (Some (ReturnsThis (ArrayIterator [Num 1] 0 0)))
                       (Some (ReturnsThis (ArrayIterator [Num 1] 0 0))))"
    by simp
  have b: "(case Value (Obj (array [Num 1])) of Function f \<Rightarrow> f () | Value v \<Rightarrow> v) =
           Obj (array [Num 1])"
    by simp
  have c: "(case Value (Obj (async_generator_object (ArrayIterator [Num 1] 0 0)))
            of Function f \<Rightarrow> f () | Value v \<Rightarrow> v) =
           Obj (async_generator_object (ArrayIterator [Num 1] 0 0))"
    by simp
  from sequence_probes_sync_first [OF a, of None] sequence_probes_sync_first [OF b, of None]
    sequence_probes_sync_first [OF c, of None]
  show ?thesis
    by (simp add: isIterable_def isAsyncIterable_def array_def async_generator_object_def)
qed

text \<open>
  Claim C8, as the code has it. The claim says that for a value exposing neither
  capability the factory surfaces a usage error. The code has no \<open>throw\<close>: for an object
  with neither method both \<open>if\<close> statements fall through and the call returns
  \<open>undefined\<close>.
\<close>

theorem sequence_neither_counterexample:
  "\<not> isIterable (Object None None) \<and> \<not> isAsyncIterable (Object None None)
   \<and> sequence (Value (Obj (Object None None))) None = Inr ReturnsUndefined"
  by (simp add: sequence_def isIterable_def isAsyncIterable_def)

text \<open>
  Claim C8, amended. For every object exposing neither capability, passed as it is or
  returned by a function argument, the call of \<open>sequence\<close> raises nothing and returns
  \<open>undefined\<close>, with or without a transducer; the caller meets a \<open>TypeError\<close> only when it
  uses the result, by calling a method of it or by iterating it. Only for \<open>null\<close> and
  \<open>undefined\<close> does the call itself raise, a \<open>TypeError\<close> from reading the property.
\<close>

theorem sequence_neither_returns_undefined:
  "((case src of Function f \<Rightarrow> f () | Value v \<Rightarrow> v) = Obj ob
      \<and> \<not> isIterable ob \<and> \<not> isAsyncIterable ob \<longrightarrow>
        sequence src t = Inr ReturnsUndefined
        \<and> invoke m (sequence src t) = Inl TypeError
        \<and> sync_output (sequence src t) = Some (Inl TypeError)
        \<and> async_output (sequence src t) = Some (Inl TypeError))
   \<and> ((case src of Function f \<Rightarrow> f () | Value v \<Rightarrow> v) = Nullish \<longrightarrow>
        sequence src t = Inl TypeError)"
proof (intro conjI impI)
  assume "(case src of Function f \<Rightarrow> f () | Value v \<Rightarrow> v) = Nullish"
  then show "sequence src t = Inl TypeError" by (simp add: sequence_def)
next
  assume a: "(case src of Function f \<Rightarrow> f () | Value v \<Rightarrow> v) = Obj ob
      \<and> \<not> isIterable ob \<and> \<not> isAsyncIterable ob"
  then show r: "sequence src t = Inr ReturnsUndefined"
    using sequence_Obj [of src ob t] by simp
  show "invoke m (sequence src t) = Inl TypeError" by (simp add: r invoke_def)
  show "sync_output (sequence src t) = Some (Inl TypeError)" by (simp add: r sync_output_def)
  show "async_output (sequence src t) = Some (Inl TypeError)" by (simp add: r async_output_def)
qed

theorem sequence_neither_returns_undefined_witness:
  "\<not> isIterable (Object None None) \<and> \<not> isAsyncIterable (Object None None)
   \<and> sequence (Function (\<lambda>u. Obj (Object None None))) (Some (Stage FirstTransducer)) =
       Inr ReturnsUndefined
   \<and> invoke First (sequence (Function (\<lambda>u. Obj (Object None None))) (Some (Stage FirstTransducer))) =
       Inl TypeError
   \<and> sequence (Value Nullish) None = Inl TypeError"
  using sequence_neither_returns_undefined
          [of "Function (\<lambda>u. Obj (Object None None))" "Object None None"
              "Some (Stage FirstTransducer)" First]
        sequence_neither_returns_undefined [of "Value Nullish" "Object None None" None First]
  by (simp add: isIterable_def isAsyncIterable_def invoke_def)

section \<open>Chaining builds, consumption evaluates\<close>

lemma AsyncSequence_method_iterable:
  "isIterable (iterable s) \<or> isAsyncIterable (iterable s) \<Longrightarrow>
   AsyncSequence_method m s =
     Inr ((if isIterable (iterable s) then Sequence else AsyncSequence)
       (s\<lparr>transducer :=
         (case m of
            Map f \<Rightarrow> map_t f (transducer s)
          | Filter p \<Rightarrow> filter_t p (transducer s)
          | Find p \<Rightarrow> find_t p (transducer s)
          | First \<Rightarrow> first (transducer s)
          | Last \<Rightarrow> last_t (transducer s)
          | Take n \<Rightarrow> take_t n (transducer s)
          | TakeWhile p \<Rightarrow> takeWhile_t p (transducer s)
          | Scan r \<Rightarrow> scan r (transducer s)
          | Reduce r \<Rightarrow> reduce r (transducer s))\<rparr>))"
  by (cases m) (auto simp: sequence_def Sequence_of_def AsyncSequence_of_def)

lemma decompose_extends:
  "\<exists>ts. ts \<noteq> [] \<and>
     decompose (case m of
            Map f \<Rightarrow> map_t f t
          | Filter p \<Rightarrow> filter_t p t
          | Find p \<Rightarrow> find_t p t
          | First \<Rightarrow> first t
          | Last \<Rightarrow> l t
          | Take n \<Rightarrow> take_t n t
          | TakeWhile p \<Rightarrow> takeWhile_t p t
          | Scan r \<Rightarrow> scan r t
          | Reduce r \<Rightarrow> reduce r t) = decompose t @ ts"
  if "l = first \<or> l = last_t"
  using that
  by (cases m)
     (auto simp: map_t_def filter_t_def find_t_def first_def last_t_def take_t_def
        takeWhile_t_def scan_def reduce_def compose_def)

text \<open>
  Claim C9. Every chaining method of a \<open>Sequence\<close> (its source is iterable) returns a
  \<open>Sequence\<close> over the very same source object, in the state it was in: nothing has been
  pulled. Its stack is the stack of the original followed by the new stages. Every
  chaining method of an \<open>AsyncSequence\<close> (its source is asynchronously iterable) likewise
  returns a facade over the same source object with the extended stack; it is an
  \<open>AsyncSequence\<close> unless the source is also synchronously iterable, when the factory
  makes it a \<open>Sequence\<close>. The methods are functions of the facade alone, which they do
  not change.
\<close>

theorem chaining_shares_source_and_extends_stack:
  "(isIterable (iterable s) \<longrightarrow>
      (\<exists>t' ts. Sequence_method m s = Inr (Sequence \<lparr>iterable = iterable s, transducer = t'\<rparr>)
         \<and> ts \<noteq> [] \<and> decompose t' = decompose (transducer s) @ ts))
   \<and> (isAsyncIterable (iterable s) \<longrightarrow>
      (\<exists>t' ts. AsyncSequence_method m s =
           Inr ((if isIterable (iterable s) then Sequence else AsyncSequence)
                  \<lparr>iterable = iterable s, transducer = t'\<rparr>)
         \<and> ts \<noteq> [] \<and> decompose t' = decompose (transducer s) @ ts))"
proof (intro conjI impI)
  assume a: "isIterable (iterable s)"
  from decompose_extends [where l = first and m = m and t = "transducer s"] obtain ts where
    "ts \<noteq> []" and "decompose (case m of
            Map f \<Rightarrow> map_t f (transducer s)
          | Filter p \<Rightarrow> filter_t p (transducer s)
          | Find p \<Rightarrow> find_t p (transducer s)
          | First \<Rightarrow> first (transducer s)
          | Last \<Rightarrow> first (transducer s)
          | Take n \<Rightarrow> take_t n (transducer s)
          | TakeWhile p \<Rightarrow> takeWhile_t p (transducer s)
          | Scan r \<Rightarrow> scan r (transducer s)
          | Reduce r \<Rightarrow> reduce r (transducer s)) = decompose (transducer s) @ ts"
    by auto
  with Sequence_method_iterable [OF a, of m]
  show "\<exists>t' ts. Sequence_method m s = Inr (Sequence \<lparr>iterable = iterable s, transducer = t'\<rparr>)
         \<and> ts \<noteq> [] \<and> decompose t' = decompose (transducer s) @ ts"
    by (intro exI [of _ "(case m of
            Map f \<Rightarrow> map_t f (transducer s)
          | Filter p \<Rightarrow> filter_t p (transducer s)
          | Find p \<Rightarrow> find_t p (transducer s)
          | First \<Rightarrow> first (transducer s)
          | Last \<Rightarrow> first (transducer s)
          | Take n \<Rightarrow> take_t n (transducer s)
          | TakeWhile p \<Rightarrow> takeWhile_t p (transducer s)
          | Scan r \<Rightarrow> scan r (transducer s)
          | Reduce r \<Rightarrow> reduce r (transducer s))"] exI [of _ ts])
       (simp del: Sequence_method.simps)
next
  assume a: "isAsyncIterable (iterable s)"
  from decompose_extends [where l = last_t and m = m and t = "transducer s"] obtain ts where
    "ts \<noteq> []" and "decompose (case m of
            Map f \<Rightarrow> map_t f (transducer s)
          | Filter p \<Rightarrow> filter_t p (transducer s)
          | Find p \<Rightarrow> find_t p (transducer s)
          | First \<Rightarrow> first (transducer s)
          | Last \<Rightarrow> last_t (transducer s)
          | Take n \<Rightarrow> take_t n (transducer s)
          | TakeWhile p \<Rightarrow> takeWhile_t p (transducer s)
          | Scan r \<Rightarrow> scan r (transducer s)
          | Reduce r \<Rightarrow> reduce r (transducer s)) = decompose (transducer s) @ ts"
    by auto
  with AsyncSequence_method_iterable [of s m] a
  show "\<exists>t' ts. AsyncSequence_method m s =
           Inr ((if isIterable (iterable s) then Sequence else AsyncSequence)
                  \<lparr>iterable = iterable s, transducer = t'\<rparr>)
         \<and> ts \<noteq> [] \<and> decompose t' = decompose (transducer s) @ ts"
    by (intro exI [of _ "(case m of
            Map f \<Rightarrow> map_t f (transducer s)
          | Filter p \<Rightarrow> filter_t p (transducer s)
          | Find p \<Rightarrow> find_t p (transducer s)
          | First \<Rightarrow> first (transducer s)
          | Last \<Rightarrow> last_t (transducer s)
          | Take n \<Rightarrow> take_t n (transducer s)
          | TakeWhile p \<Rightarrow> takeWhile_t p (transducer s)
          | Scan r \<Rightarrow> scan r (transducer s)
          | Reduce r \<Rightarrow> reduce r (transducer s))"] exI [of _ ts])
       (simp del: AsyncSequence_method.simps)
qed

theorem chaining_shares_source_and_extends_stack_witness:
  "isIterable (generator_object (ArrayIterator [Num 1, Num 2] 1 1))
   \<and> (\<exists>t'. Sequence_method (Take 1)
              \<lparr>iterable = generator_object (ArrayIterator [Num 1, Num 2] 1 1),
               transducer = IdentityTransducer\<rparr> =
            Inr (Sequence \<lparr>iterable = generator_object (ArrayIterator [Num 1, Num 2] 1 1),
                           transducer = t'\<rparr>))
   \<and> isAsyncIterable (async_generator_object (ArrayIterator [Num 1, Num 2] 0 0))
   \<and> (\<exists>t'. AsyncSequence_method (Take 1)
              \<lparr>iterable = async_generator_object (ArrayIterator [Num 1, Num 2] 0 0),
               transducer = IdentityTransducer\<rparr> =
            Inr (AsyncSequence \<lparr>iterable = async_generator_object (ArrayIterator [Num 1, Num 2] 0 0),
                                transducer = t'\<rparr>))"
proof -
  have a: "isIterable (generator_object (ArrayIterator [Num 1, Num 2] 1 1))"
    by (simp add: isIterable_def generator_object_def)
  have b: "isAsyncIterable (async_generator_object (ArrayIterator [Num 1, Num 2] 0 0))"
    by (simp add: isAsyncIterable_def async_generator_object_def)
  have c: "\<not> isIterable (async_generator_object (ArrayIterator [Num 1, Num 2] 0 0))"
    by (simp add: isIterable_def async_generator_object_def)
  from chaining_shares_source_and_extends_stack
         [of "\<lparr>iterable = generator_object (ArrayIterator [Num 1, Num 2] 1 1),
               transducer = IdentityTransducer\<rparr>" "Take 1"]
       chaining_shares_source_and_extends_stack
         [of "\<lparr>iterable = async_generator_object (ArrayIterator [Num 1, Num 2] 0 0),
               transducer = IdentityTransducer\<rparr>" "Take 1"]
       a b c
  show ?thesis by (simp del: Sequence_method.simps AsyncSequence_method.simps) blast
qed

section \<open>The two execution modes of a transducer\<close>

text \<open>
  The bodies of \<open>sync\<close> and \<open>async_\<close> are the same statements in every transducer class, so
  the two pull steps, read from the two sets of methods, are the same function; what a
  transducer stack yields, and how it leaves its source, does not depend on the mode.
\<close>

lemma next_sync_imp_async:
  assumes "next_sync it = Some r"
  shows "next_async it = Some r"
proof (rule next_sync.raw_induct [OF _ assms])
  fix f :: "iter \<Rightarrow> (step \<times> iter) option" and it r
  assume IH: "\<And>it r. f it = Some r \<Longrightarrow> next_async it = Some r"
  assume body: "(case it of
        NotIterable \<Rightarrow> Some (Throw TypeError, NotIterable)
      | ArrayIterator xs i n \<Rightarrow>
          (if i < length xs then Some (Yield (xs ! i), ArrayIterator xs (Suc i) (Suc n))
           else Some (Done, ArrayIterator xs i (Suc n)))
      | IterateGenerator st g v \<Rightarrow>
          (case st of
             SuspendedStart \<Rightarrow> Some (Yield v, IterateGenerator SuspendedYield g v)
           | SuspendedYield \<Rightarrow> Some (Yield (g v), IterateGenerator SuspendedYield g (g v))
           | Executing \<Rightarrow> Some (Throw TypeError, it)
           | Completed \<Rightarrow> Some (Done, it))
      | DelegatingGenerator st inner \<Rightarrow>
          (case st of
             Completed \<Rightarrow> Some (Done, it)
           | Executing \<Rightarrow> Some (Throw TypeError, it)
           | _ \<Rightarrow>
              do {
                (r, inner') \<leftarrow> f inner;
                (case r of
                   Yield a \<Rightarrow> Some (Yield a, DelegatingGenerator SuspendedYield inner')
                 | Done \<Rightarrow> Some (Done, DelegatingGenerator Completed inner')
                 | Throw e \<Rightarrow> Some (Throw e, DelegatingGenerator Completed inner'))
              })
      | TransducerGenerator st t l up \<Rightarrow>
          (case st of
             Completed \<Rightarrow> Some (Done, it)
           | SuspendedStart \<Rightarrow>
               (case t of
                  TakeTransducer c \<Rightarrow>
                    (if c = 0 then Some (Done, TransducerGenerator Completed t l up)
                     else f (TransducerGenerator Executing t l up))
                | _ \<Rightarrow> f (TransducerGenerator Executing t l up))
           | SuspendedYield \<Rightarrow>
               (case t of
                  FirstTransducer \<Rightarrow>
                    Some (Done, TransducerGenerator Completed t l (return_it up))
                | LastTransducer \<Rightarrow> Some (Done, TransducerGenerator Completed t l up)
                | TakeTransducer c \<Rightarrow>
                    (if c - 1 = 0
                     then Some (Done, TransducerGenerator Completed (TakeTransducer (c - 1)) l
                                  (return_it up))
                     else f (TransducerGenerator Executing (TakeTransducer (c - 1)) l up))
                | _ \<Rightarrow> f (TransducerGenerator Executing t l up))
           | Executing \<Rightarrow>
               do {
                 (r, up') \<leftarrow> f up;
                 (case r of
                    Throw e \<Rightarrow> Some (Throw e, TransducerGenerator Completed t l up')
                  | Done \<Rightarrow>
                      (case t of
                         LastTransducer \<Rightarrow>
                           (case l of
                              Undefined \<Rightarrow> Some (Done, TransducerGenerator Completed t l up')
                            | _ \<Rightarrow> Some (Yield l, TransducerGenerator SuspendedYield t l up'))
                       | _ \<Rightarrow> Some (Done, TransducerGenerator Completed t l up'))
                  | Yield a \<Rightarrow>
                      (case t of
                         FirstTransducer \<Rightarrow>
                           Some (Yield a, TransducerGenerator SuspendedYield t l up')
                       | LastTransducer \<Rightarrow> f (TransducerGenerator Executing t a up')
                       | MapTransducer m \<Rightarrow>
                           Some (Yield (m a), TransducerGenerator SuspendedYield t l up')
                       | FilterTransducer p \<Rightarrow>
                           (if p a then Some (Yield a, TransducerGenerator SuspendedYield t l up')
                            else f (TransducerGenerator Executing t l up'))
                       | ScanTransducer rd acc \<Rightarrow>
                           Some (Yield (call rd acc a),
                                 TransducerGenerator SuspendedYield
                                   (ScanTransducer rd (call rd acc a)) l up')
                       | TakeTransducer c \<Rightarrow>
                           Some (Yield a, TransducerGenerator SuspendedYield t l up')
                       | TakeWhileTransducer p \<Rightarrow>
                           (if p a then Some (Yield a, TransducerGenerator SuspendedYield t l up')
                            else Some (Done, TransducerGenerator Completed t l (return_it up')))))
               })) = Some r"
  show "next_async it = Some r"
  proof (cases it)
    case NotIterable
    with body show ?thesis by (simp add: next_async_rules)
  next
    case (ArrayIterator xs i n)
    with body show ?thesis by (simp add: next_async_rules)
  next
    case (IterateGenerator st g v)
    have "next_async (IterateGenerator Executing g v) =
            Some (Throw TypeError, IterateGenerator Executing g v)"
      by (subst next_async.simps) simp
    with IterateGenerator body show ?thesis by (cases st) (auto simp: next_async_rules)
  next
    case (DelegatingGenerator st inner)
    have "next_async (DelegatingGenerator Executing inner) =
            Some (Throw TypeError, DelegatingGenerator Executing inner)"
      by (subst next_async.simps) simp
    with DelegatingGenerator body IH show ?thesis
      by (cases st) (auto simp: next_async_rules split: bind_splits step.splits)
  next
    case (TransducerGenerator st t l up)
    show ?thesis
    proof (cases st)
      case SuspendedStart
      have "next_async (TransducerGenerator SuspendedStart t l up) = Some r"
        using body IH unfolding TransducerGenerator SuspendedStart
        by (subst next_async_Start) (cases t; auto split: if_splits)
      with TransducerGenerator SuspendedStart show ?thesis by simp
    next
      case Executing
      with body TransducerGenerator obtain s up' where fu: "f up = Some (s, up')"
        by (auto split: bind_splits)
      from IH [OF fu] have nu: "next_async up = Some (s, up')" .
      have "next_async (TransducerGenerator Executing t l up) = Some r"
        using body fu nu IH unfolding TransducerGenerator Executing
        by (subst next_async_Executing) (cases s; cases t; auto split: if_splits jsval.splits)
      with TransducerGenerator Executing show ?thesis by simp
    next
      case SuspendedYield
      have "next_async (TransducerGenerator SuspendedYield t l up) = Some r"
        using body IH unfolding TransducerGenerator SuspendedYield
        by (subst next_async_Resume) (cases t; auto split: if_splits)
      with TransducerGenerator SuspendedYield show ?thesis by simp
    next
      case Completed
      with body TransducerGenerator show ?thesis by (simp add: next_async_rules)
    qed
  qed
qed

lemma next_async_imp_sync:
  assumes "next_async it = Some r"
  shows "next_sync it = Some r"
proof (rule next_async.raw_induct [OF _ assms])
  fix f :: "iter \<Rightarrow> (step \<times> iter) option" and it r
  assume IH: "\<And>it r. f it = Some r \<Longrightarrow> next_sync it = Some r"
  assume body: "(case it of
        NotIterable \<Rightarrow> Some (Throw TypeError, NotIterable)
      | ArrayIterator xs i n \<Rightarrow>
          (if i < length xs then Some (Yield (xs ! i), ArrayIterator xs (Suc i) (Suc n))
           else Some (Done, ArrayIterator xs i (Suc n)))
      | IterateGenerator st g v \<Rightarrow>
          (case st of
             SuspendedStart \<Rightarrow> Some (Yield v, IterateGenerator SuspendedYield g v)
           | SuspendedYield \<Rightarrow> Some (Yield (g v), IterateGenerator SuspendedYield g (g v))
           | Executing \<Rightarrow> Some (Throw TypeError, it)
           | Completed \<Rightarrow> Some (Done, it))
      | DelegatingGenerator st inner \<Rightarrow>
          (case st of
             Completed \<Rightarrow> Some (Done, it)
           | Executing \<Rightarrow> Some (Throw TypeError, it)
           | _ \<Rightarrow>
              do {
                (r, inner') \<leftarrow> f inner;
                (case r of
                   Yield a \<Rightarrow> Some (Yield a, DelegatingGenerator SuspendedYield inner')
                 | Done \<Rightarrow> Some (Done, DelegatingGenerator Completed inner')
                 | Throw e \<Rightarrow> Some (Throw e, DelegatingGenerator Completed inner'))
              })
      | TransducerGenerator st t l up \<Rightarrow>
          (case st of
             Completed \<Rightarrow> Some (Done, it)
           | SuspendedStart \<Rightarrow>
               (case t of
                  TakeTransducer c \<Rightarrow>
                    (if c = 0 then Some (Done, TransducerGenerator Completed t l up)
                     else f (TransducerGenerator Executing t l up))
                | _ \<Rightarrow> f (TransducerGenerator Executing t l up))
           | SuspendedYield \<Rightarrow>
               (case t of
                  FirstTransducer \<Rightarrow>
                    Some (Done, TransducerGenerator Completed t l (return_it up))
                | LastTransducer \<Rightarrow> Some (Done, TransducerGenerator Completed t l up)
                | TakeTransducer c \<Rightarrow>
                    (if c - 1 = 0
                     then Some (Done, TransducerGenerator Completed (TakeTransducer (c - 1)) l
                                  (return_it up))
                     else f (TransducerGenerator Executing (TakeTransducer (c - 1)) l up))
                | _ \<Rightarrow> f (TransducerGenerator Executing t l up))
           | Executing \<Rightarrow>
               do {
                 (r, up') \<leftarrow> f up;
                 (case r of
                    Throw e \<Rightarrow> Some (Throw e, TransducerGenerator Completed t l up')
                  | Done \<Rightarrow>
                      (case t of
                         LastTransducer \<Rightarrow>
                           (case l of
                              Undefined \<Rightarrow> Some (Done, TransducerGenerator Completed t l up')
                            | _ \<Rightarrow> Some (Yield l, TransducerGenerator SuspendedYield t l up'))
                       | _ \<Rightarrow> Some (Done, TransducerGenerator Completed t l up'))
                  | Yield a \<Rightarrow>
                      (case t of
                         FirstTransducer \<Rightarrow>
                           Some (Yield a, TransducerGenerator SuspendedYield t l up')
                       | LastTransducer \<Rightarrow> f (TransducerGenerator Executing t a up')
                       | MapTransducer m \<Rightarrow>
                           Some (Yield (m a), TransducerGenerator SuspendedYield t l up')
                       | FilterTransducer p \<Rightarrow>
                           (if p a then Some (Yield a, TransducerGenerator SuspendedYield t l up')
                            else f (TransducerGenerator Executing t l up'))
                       | ScanTransducer rd acc \<Rightarrow>
                           Some (Yield (call rd acc a),
                                 TransducerGenerator SuspendedYield
                                   (ScanTransducer rd (call rd acc a)) l up')
                       | TakeTransducer c \<Rightarrow>
                           Some (Yield a, TransducerGenerator SuspendedYield t l up')
                       | TakeWhileTransducer p \<Rightarrow>
                           (if p a then Some (Yield a, TransducerGenerator SuspendedYield t l up')
                            else Some (Done, TransducerGenerator Completed t l (return_it up')))))
               })) = Some r"
  show "next_sync it = Some r"
  proof (cases it)
    case NotIterable
    with body show ?thesis by (simp add: next_sync_rules)
  next
    case (ArrayIterator xs i n)
    with body show ?thesis by (simp add: next_sync_rules)
  next
    case (IterateGenerator st g v)
    have "next_sync (IterateGenerator Executing g v) =
            Some (Throw TypeError, IterateGenerator Executing g v)"
      by (subst next_sync.simps) simp
    with IterateGenerator body show ?thesis by (cases st) (auto simp: next_sync_rules)
  next
    case (DelegatingGenerator st inner)
    have "next_sync (DelegatingGenerator Executing inner) =
            Some (Throw TypeError, DelegatingGenerator Executing inner)"
      by (subst next_sync.simps) simp
    with DelegatingGenerator body IH show ?thesis
      by (cases st) (auto simp: next_sync_rules split: bind_splits step.splits)
  next
    case (TransducerGenerator st t l up)
    show ?thesis
    proof (cases st)
      case SuspendedStart
      have "next_sync (TransducerGenerator SuspendedStart t l up) = Some r"
        using body IH unfolding TransducerGenerator SuspendedStart
        by (subst next_sync_Start) (cases t; auto split: if_splits)
      with TransducerGenerator SuspendedStart show ?thesis by simp
    next
      case Executing
      with body TransducerGenerator obtain s up' where fu: "f up = Some (s, up')"
        by (auto split: bind_splits)
      from IH [OF fu] have nu: "next_sync up = Some (s, up')" .
      have "next_sync (TransducerGenerator Executing t l up) = Some r"
        using body fu nu IH unfolding TransducerGenerator Executing
        by (subst next_sync_Executing) (cases s; cases t; auto split: if_splits jsval.splits)
      with TransducerGenerator Executing show ?thesis by simp
    next
      case SuspendedYield
      have "next_sync (TransducerGenerator SuspendedYield t l up) = Some r"
        using body IH unfolding TransducerGenerator SuspendedYield
        by (subst next_sync_Resume) (cases t; auto split: if_splits)
      with TransducerGenerator SuspendedYield show ?thesis by simp
    next
      case Completed
      with body TransducerGenerator show ?thesis by (simp add: next_sync_rules)
    qed
  qed
qed

lemma next_async_eq_sync: "next_async it = next_sync it"
proof (cases "next_sync it")
  case (Some r)
  then show ?thesis by (simp add: next_sync_imp_async)
next
  case None
  then show ?thesis by (cases "next_async it") (auto dest: next_async_imp_sync)
qed

lemma drain_sync_imp_async:
  assumes "drain_sync it = Some r"
  shows "drain_async it = Some r"
  using assms
proof (induction rule: drain_sync_induct)
  case (Done it it')
  then show ?case by (subst drain_async_step) (simp add: next_async_eq_sync)
next
  case (Throw it e it')
  then show ?case by (subst drain_async_step) (simp add: next_async_eq_sync)
next
  case (Yield it a it1 res it2)
  then show ?case
    by (subst drain_async_step) (simp add: next_async_eq_sync split: sum.splits)
qed

lemma drain_async_imp_sync:
  assumes "drain_async it = Some r"
  shows "drain_sync it = Some r"
proof (rule drain_async.raw_induct [OF _ assms])
  fix f :: "iter \<Rightarrow> ((js_error + jsval list) \<times> iter) option" and it r
  assume IH: "\<And>x y. f x = Some y \<Longrightarrow> drain_sync x = Some y"
  assume body: "next_async it \<bind>
       (\<lambda>(r, it').
           case r of
             Yield a \<Rightarrow>
               f it' \<bind>
               (\<lambda>(res, it'').
                   Some (case res of Inl e \<Rightarrow> Inl e | Inr ys \<Rightarrow> Inr (a # ys), it''))
           | Done \<Rightarrow> Some (Inr [], it')
           | Throw e \<Rightarrow> Some (Inl e, it')) = Some r"
  from body obtain s it1 where nx: "next_sync it = Some (s, it1)"
    by (auto simp: next_async_eq_sync split: bind_splits)
  show "drain_sync it = Some r"
  proof (cases s)
    case (Yield a)
    with body nx obtain res it2 where
      d: "f it1 = Some (res, it2)" and
      r: "r = (case res of Inl e \<Rightarrow> Inl e | Inr ys \<Rightarrow> Inr (a # ys), it2)"
      by (auto simp: next_async_eq_sync split: bind_splits)
    from IH [OF d] nx Yield r show ?thesis
      by (subst drain_sync_step) (simp split: sum.splits)
  next
    case Done
    with body nx show ?thesis
      by (subst drain_sync_step) (auto simp: next_async_eq_sync)
  next
    case (Throw e)
    with body nx show ?thesis
      by (subst drain_sync_step) (auto simp: next_async_eq_sync)
  qed
qed

lemma drain_async_eq_sync: "drain_async it = drain_sync it"
proof (cases "drain_sync it")
  case (Some r)
  then show ?thesis by (simp add: drain_sync_imp_async)
next
  case None
  then show ?thesis by (cases "drain_async it") (auto dest: drain_async_imp_sync)
qed

lemma async_eq_sync: "async t it = sync t it"
  by (induction t arbitrary: it) simp_all

lemma transducer_modes_agree: "drain_async (async t it) = drain_sync (sync t it)"
  by (simp add: drain_async_eq_sync async_eq_sync)

lemma chain_Cons: "chain (m # ms) x = chain ms (invoke m x)"
  by (simp add: chain_def)

lemma chains_without_last_build_same_stack:
  assumes "Last \<notin> set ms"
    and "isIterable (iterable s)"
    and "\<not> isIterable (iterable s')" and "isAsyncIterable (iterable s')"
    and "transducer s' = transducer s"
  shows "\<exists>t. chain ms (Inr (Sequence s)) = Inr (Sequence (s\<lparr>transducer := t\<rparr>))
           \<and> chain ms (Inr (AsyncSequence s')) = Inr (AsyncSequence (s'\<lparr>transducer := t\<rparr>))"
  using assms
proof (induction ms arbitrary: s s')
  case Nil
  show ?case
    by (intro exI [of _ "transducer s"]) (simp add: chain_def Nil.prems(5) [symmetric])
next
  case (Cons m ms)
  let ?t = "case m of
            Map f \<Rightarrow> map_t f (transducer s)
          | Filter p \<Rightarrow> filter_t p (transducer s)
          | Find p \<Rightarrow> find_t p (transducer s)
          | First \<Rightarrow> first (transducer s)
          | Last \<Rightarrow> first (transducer s)
          | Take n \<Rightarrow> take_t n (transducer s)
          | TakeWhile p \<Rightarrow> takeWhile_t p (transducer s)
          | Scan r \<Rightarrow> scan r (transducer s)
          | Reduce r \<Rightarrow> reduce r (transducer s)"
  have m: "m \<noteq> Last" and ms: "Last \<notin> set ms" using Cons.prems(1) by auto
  have s1: "invoke m (Inr (Sequence s)) = Inr (Sequence (s\<lparr>transducer := ?t\<rparr>))"
    using Sequence_method_iterable [OF Cons.prems(2), of m] by (simp add: invoke_def)
  have s2: "invoke m (Inr (AsyncSequence s')) = Inr (AsyncSequence (s'\<lparr>transducer := ?t\<rparr>))"
    using AsyncSequence_method_iterable [of s' m] Cons.prems(3,4,5) m
    by (cases m) (simp_all add: invoke_def del: AsyncSequence_method.simps)
  from Cons.IH [of "s\<lparr>transducer := ?t\<rparr>" "s'\<lparr>transducer := ?t\<rparr>"] ms Cons.prems(2,3,4)
  show ?case by (simp add: chain_Cons s1 s2)
qed

lemma chains_without_last_agree:
  assumes "Last \<notin> set ms"
    and "isIterable a" and "\<not> isIterable b" and "isAsyncIterable b"
    and "get_async_iterator b = get_iterator a"
  shows "async_output (chain ms (sequence (Value (Obj b)) None)) =
         sync_output (chain ms (sequence (Value (Obj a)) None))"
proof -
  have a: "sequence (Value (Obj a)) None =
             Inr (Sequence \<lparr>iterable = a, transducer = IdentityTransducer\<rparr>)"
    using assms(2) by (simp add: sequence_def Sequence_of_def)
  have b: "sequence (Value (Obj b)) None =
             Inr (AsyncSequence \<lparr>iterable = b, transducer = IdentityTransducer\<rparr>)"
    using assms(3,4) by (simp add: sequence_def AsyncSequence_of_def)
  from chains_without_last_build_same_stack
         [OF assms(1), of "\<lparr>iterable = a, transducer = IdentityTransducer\<rparr>"
                          "\<lparr>iterable = b, transducer = IdentityTransducer\<rparr>"]
       assms(2,3,4)
  obtain t where
    "chain ms (Inr (Sequence \<lparr>iterable = a, transducer = IdentityTransducer\<rparr>)) =
       Inr (Sequence \<lparr>iterable = a, transducer = t\<rparr>)"
    "chain ms (Inr (AsyncSequence \<lparr>iterable = b, transducer = IdentityTransducer\<rparr>)) =
       Inr (AsyncSequence \<lparr>iterable = b, transducer = t\<rparr>)"
    by auto
  then show ?thesis
    unfolding a b
    by (simp add: sync_output_def async_output_def syncArray_def asyncArray_def
          Sequence_iterator_def AsyncSequence_iterator_def assms(5) transducer_modes_agree
          map_option.compositionality comp_def
        split: bind_splits prod.splits)
qed

end
